theory Spec2Isabelle
  imports Complex_Main
begin

section \<open>Numbers and errors\<close>

text \<open>
  The charge scheduling engine of \<^verbatim>\<open>foxesscloud/openapi.py\<close> computes with Python
  floats and unbounded Python integers. Python integers are modelled as \<^typ>\<open>int\<close> and
  floats as \<^typ>\<open>real\<close> numbers. Two computations return a different result in
  Python's floats than in exact arithmetic on inputs they really receive: the weighted
  average of prices that \<^verbatim>\<open>get_agile_period\<close> rounds to two decimals, and the text
  conversions \<^verbatim>\<open>time_hours\<close> and \<^verbatim>\<open>hours_time\<close>. These carry the rounding of each
  float operation as an explicit parameter. The other functions are modelled in exact
  arithmetic.
\<close>

datatype error = IndexError | ZeroDivisionError | ValueError | TypeError

text \<open>Python's \<^verbatim>\<open>int(x)\<close> on a float truncates towards zero.\<close>

definition py_int :: "real \<Rightarrow> int" where
  "py_int x = (if 0 \<le> x then \<lfloor>x\<rfloor> else \<lceil>x\<rceil>)"

text \<open>Python's \<^verbatim>\<open>round(x, 0)\<close>: nearest integer, a tie goes to the even neighbour.\<close>

definition py_round :: "real \<Rightarrow> int" where
  "py_round x =
     (let f = \<lfloor>x\<rfloor>; d = x - of_int f
      in if d < 1 / 2 then f else if 1 / 2 < d then f + 1 else if even f then f else f + 1)"

section \<open>Time and charge period functions\<close>

text \<open>
  \<^verbatim>\<open>while h < 0: h += 24\<close> and \<^verbatim>\<open>while h >= 24: h -= 24\<close>, the two loops shared by
  \<^verbatim>\<open>round_time\<close> and \<^verbatim>\<open>hour_in\<close>. Both terminate on every real number.
\<close>

function roll_up :: "real \<Rightarrow> real" where
  "roll_up h = (if h < 0 then roll_up (h + 24) else h)"
  by pat_completeness auto
termination
proof (relation "measure (\<lambda>h. nat \<lceil>- h / 24\<rceil>)")
  show "wf (measure (\<lambda>h::real. nat \<lceil>- h / 24\<rceil>))" by simp
next
  fix h :: real
  assume neg: "h < 0"
  have e: "- (h + 24) / 24 = - h / 24 - 1" by (simp add: field_simps)
  have "- (h + 24) / 24 \<le> of_int \<lceil>- h / 24\<rceil> - 1"
    using le_of_int_ceiling [of "- h / 24"] e by linarith
  then have lt: "\<lceil>- (h + 24) / 24\<rceil> < \<lceil>- h / 24\<rceil>"
    by (simp only: ceiling_less_iff)
  have "0 < - h / 24" using neg by simp
  then have "0 < \<lceil>- h / 24\<rceil>" by (simp only: zero_less_ceiling)
  with lt have "nat \<lceil>- (h + 24) / 24\<rceil> < nat \<lceil>- h / 24\<rceil>" by linarith
  then show "(h + 24, h) \<in> measure (\<lambda>h. nat \<lceil>- h / 24\<rceil>)"
    by (simp only: in_measure)
qed

function roll_down :: "real \<Rightarrow> real" where
  "roll_down h = (if 24 \<le> h then roll_down (h - 24) else h)"
  by pat_completeness auto
termination
proof (relation "measure (\<lambda>h. nat \<lfloor>h / 24\<rfloor>)")
  show "wf (measure (\<lambda>h::real. nat \<lfloor>h / 24\<rfloor>))" by simp
next
  fix h :: real
  assume big: "24 \<le> h"
  have e: "(h - 24) / 24 = h / 24 - 1" by (simp add: field_simps)
  have "(h - 24) / 24 < of_int \<lfloor>h / 24\<rfloor>"
    using floor_correct [of "h / 24"] e by linarith
  then have lt: "\<lfloor>(h - 24) / 24\<rfloor> < \<lfloor>h / 24\<rfloor>"
    by (simp only: floor_less_iff)
  have "1 \<le> h / 24" using big by simp
  then have "1 \<le> \<lfloor>h / 24\<rfloor>" by (simp only: one_le_floor)
  with lt have "nat \<lfloor>(h - 24) / 24\<rfloor> < nat \<lfloor>h / 24\<rfloor>" by linarith
  then show "(h - 24, h) \<in> measure (\<lambda>h. nat \<lfloor>h / 24\<rfloor>)"
    by (simp only: in_measure)
qed

declare roll_up.simps [simp del] roll_down.simps [simp del]

definition wrap24 :: "real \<Rightarrow> real" where
  "wrap24 h = roll_down (roll_up h)"

text \<open>
  \<^verbatim>\<open>round_time(h)\<close>: roll over a decimal time and round it to one minute. The numeric
  part is \<open>round_time_num\<close>; \<open>round_time\<close> adds the \<^verbatim>\<open>None\<close> case.
\<close>

definition round_time_num :: "real \<Rightarrow> real" where
  "round_time_num h0 =
     (let h = wrap24 h0
      in of_int (py_int h) + of_int (py_int (60 * (h - of_int (py_int h)) + 0.5)) / 60)"

definition round_time :: "real option \<Rightarrow> real option" where
  "round_time h = (case h of None \<Rightarrow> None | Some x \<Rightarrow> Some (round_time_num x))"

text \<open>
  A tariff period is a dictionary with the keys \<^verbatim>\<open>'start'\<close> and \<^verbatim>\<open>'end'\<close>, either of
  which may hold \<^verbatim>\<open>None\<close>.
\<close>

record period =
  start_h :: "real option"
  end_h :: "real option"

text \<open>\<^verbatim>\<open>hour_in(h, period)\<close>: True if a decimal hour is within a time period.\<close>

definition hour_in :: "real \<Rightarrow> period option \<Rightarrow> bool" where
  "hour_in h0 p =
     (case p of
        None \<Rightarrow> False
      | Some q \<Rightarrow>
          (case (start_h q, end_h q) of
             (Some s, Some e) \<Rightarrow>
               if s = e then False
               else (let h = wrap24 h0
                     in if e < s then s \<le> h \<or> h < e else s \<le> h \<and> h < e)
           | _ \<Rightarrow> False))"

abbreviation mk_period :: "real \<Rightarrow> real \<Rightarrow> period option" where
  "mk_period s e \<equiv> Some \<lparr>start_h = Some s, end_h = Some e\<rparr>"

section \<open>Python's floats\<close>

text \<open>
  Where the rounding of a float operation decides what the code returns, the operation
  is followed by a parameter \<open>rnd\<close>: the identity \<open>exact\<close> for exact arithmetic,
  \<open>binary64\<close> for Python's floats.

  \<open>binary64\<close> rounds a real number to the nearest number with a 53 bit significand, a tie
  going to the even significand, with the spacing of the subnormal numbers below
  \<open>2 ^ - 1022\<close>. Overflow to infinity is not modelled; prices and the times of a day are
  far from it. \<open>binade x\<close> is the exponent \<open>e\<close> with \<open>2 ^ e \<le> x < 2 ^ (e + 1)\<close> of a
  positive \<open>x\<close>.
\<close>

function bin_up :: "real \<Rightarrow> int \<Rightarrow> int" where
  "bin_up x e = (if 2 \<le> x then bin_up (x / 2) (e + 1) else e)"
  by pat_completeness auto
termination
proof (relation "measure (\<lambda>(x, e). nat \<lfloor>x\<rfloor>)")
  show "wf (measure (\<lambda>(x :: real, e :: int). nat \<lfloor>x\<rfloor>))" by simp
next
  fix x :: real and e :: int
  assume big: "2 \<le> x"
  have "x / 2 \<le> x - 1" using big by simp
  then have "\<lfloor>x / 2\<rfloor> \<le> \<lfloor>x - 1\<rfloor>" by (rule floor_mono)
  then have "\<lfloor>x / 2\<rfloor> < \<lfloor>x\<rfloor>" by simp
  moreover have "0 < \<lfloor>x\<rfloor>" using big by simp
  ultimately have "nat \<lfloor>x / 2\<rfloor> < nat \<lfloor>x\<rfloor>" by linarith
  then show "((x / 2, e + 1), (x, e)) \<in> measure (\<lambda>(x, e). nat \<lfloor>x\<rfloor>)" by simp
qed

function bin_down :: "real \<Rightarrow> int \<Rightarrow> int" where
  "bin_down x e = (if 0 < x \<and> x < 1 then bin_down (x * 2) (e - 1) else e)"
  by pat_completeness auto
termination
proof (relation "measure (\<lambda>(x, e). nat \<lceil>1 / x\<rceil>)")
  show "wf (measure (\<lambda>(x :: real, e :: int). nat \<lceil>1 / x\<rceil>))" by simp
next
  fix x :: real and e :: int
  assume small: "0 < x \<and> x < 1"
  define y where "y = 1 / x"
  have y1: "1 < y" using small by (simp add: y_def)
  then have c2: "2 \<le> \<lceil>y\<rceil>" by linarith
  then have c2r: "(2 :: real) \<le> of_int \<lceil>y\<rceil>" by linarith
  have "y \<le> of_int \<lceil>y\<rceil>" by (rule le_of_int_ceiling)
  with c2r have "y / 2 \<le> of_int \<lceil>y\<rceil> - 1" by linarith
  also have "of_int \<lceil>y\<rceil> - 1 = (of_int (\<lceil>y\<rceil> - 1) :: real)" by simp
  finally have "y / 2 \<le> of_int (\<lceil>y\<rceil> - 1)" .
  then have "\<lceil>y / 2\<rceil> \<le> \<lceil>y\<rceil> - 1" by (simp only: ceiling_le_iff)
  then have "\<lceil>y / 2\<rceil> < \<lceil>y\<rceil>" by linarith
  moreover have h: "1 / (x * 2) = y / 2" by (simp add: y_def)
  ultimately have "\<lceil>1 / (x * 2)\<rceil> < \<lceil>y\<rceil>" by (simp only: h)
  with c2 have "nat \<lceil>1 / (x * 2)\<rceil> < nat \<lceil>1 / x\<rceil>" unfolding y_def by linarith
  then show "((x * 2, e - 1), (x, e)) \<in> measure (\<lambda>(x, e). nat \<lceil>1 / x\<rceil>)" by simp
qed

declare bin_up.simps [simp del] bin_down.simps [simp del]

definition binade :: "real \<Rightarrow> int" where
  "binade x = (if 1 \<le> x then bin_up x 0 else bin_down x 0)"

definition pow2 :: "int \<Rightarrow> real" where
  "pow2 e = (if 0 \<le> e then 2 ^ nat e else 1 / 2 ^ nat (- e))"

definition binary64 :: "real \<Rightarrow> real" where
  "binary64 x =
     (if x = 0 then 0
      else (let e = max (binade \<bar>x\<bar>) (- 1022); u = pow2 (e - 52)
            in of_int (py_round (x / u)) * u))"

definition exact :: "real \<Rightarrow> real" where
  "exact x = x"

text \<open>
  Python's \<^verbatim>\<open>sum\<close> over floats starts from the integer 0, so the first term is taken as
  it is. The interpreters up to CPython 3.11 then add the terms from the left, every
  addition rounding (\<open>Plain\<close>). From CPython 3.12 on the additions also collect their
  rounding errors in a correction term, which is added to the total at the end
  (\<open>Compensated\<close>):

  \<^verbatim>\<open>t = total + x\<close>

  \<^verbatim>\<open>if fabs(total) >= fabs(x): c += (total - t) + x  else: c += (x - t) + total\<close>

  \<^verbatim>\<open>total = t\<close>

  and at the end \<^verbatim>\<open>if c: total += c\<close>.
\<close>

datatype summation = Plain | Compensated

definition fsum :: "(real \<Rightarrow> real) \<Rightarrow> real list \<Rightarrow> real" where
  "fsum rnd xs = foldl (\<lambda>acc x. rnd (acc + x)) 0 xs"

fun comp_add :: "(real \<Rightarrow> real) \<Rightarrow> real \<times> real \<Rightarrow> real \<Rightarrow> real \<times> real" where
  "comp_add rnd (acc, c) x =
     (let t = rnd (acc + x)
      in if \<bar>x\<bar> \<le> \<bar>acc\<bar> then (t, rnd (c + rnd (rnd (acc - t) + x)))
         else (t, rnd (c + rnd (rnd (x - t) + acc))))"

definition fsum_comp :: "(real \<Rightarrow> real) \<Rightarrow> real list \<Rightarrow> real" where
  "fsum_comp rnd xs =
     (case xs of
        [] \<Rightarrow> 0
      | x # ys \<Rightarrow>
          (case foldl (comp_add rnd) (rnd (0 + x), 0) ys of
             (acc, c) \<Rightarrow> if c \<noteq> 0 then rnd (acc + c) else acc))"

definition py_sum :: "(real \<Rightarrow> real) \<Rightarrow> summation \<Rightarrow> real list \<Rightarrow> real" where
  "py_sum rnd sm xs = (case sm of Plain \<Rightarrow> fsum rnd xs | Compensated \<Rightarrow> fsum_comp rnd xs)"

text \<open>
  Python's \<^verbatim>\<open>round(x, 2)\<close> on a float: the value of \<open>x\<close> is rounded to two decimals, a
  tie going to the even last digit, and the result is the float nearest to that decimal
  number.
\<close>

definition py_round2 :: "(real \<Rightarrow> real) \<Rightarrow> real \<Rightarrow> real" where
  "py_round2 rnd x = rnd (of_int (py_round (x * 100)) / 100)"

section \<open>Python lists\<close>

text \<open>
  Indexing \<^verbatim>\<open>xs[i]\<close> counts a negative index from the end and raises
  \<^verbatim>\<open>IndexError\<close> out of range; a slice \<^verbatim>\<open>xs[i:j]\<close> clips its bounds instead.
\<close>

definition py_get :: "'a list \<Rightarrow> int \<Rightarrow> error + 'a" where
  "py_get xs i =
     (if 0 \<le> i \<and> i < int (length xs) then Inr (xs ! nat i)
      else if i < 0 \<and> - int (length xs) \<le> i then Inr (xs ! nat (int (length xs) + i))
      else Inl IndexError)"

definition py_bound :: "'a list \<Rightarrow> int \<Rightarrow> nat" where
  "py_bound xs i =
     (let n = int (length xs) in nat (if i < 0 then max 0 (n + i) else min i n))"

definition py_slice :: "'a list \<Rightarrow> int \<Rightarrow> int \<Rightarrow> 'a list" where
  "py_slice xs i j = take (py_bound xs j - py_bound xs i) (drop (py_bound xs i) xs)"

definition py_from :: "'a list \<Rightarrow> int \<Rightarrow> 'a list" where
  "py_from xs i = drop (py_bound xs i) xs"

definition py_upto :: "'a list \<Rightarrow> int \<Rightarrow> 'a list" where
  "py_upto xs j = take (py_bound xs j) xs"

section \<open>Octopus Agile price window\<close>

text \<open>
  \<^verbatim>\<open>get_agile_period\<close> after the prices have been fetched. \<open>results\<close> is the ordered
  list of half-hour slots, each with its local start time as text and its price;
  \<open>duration\<close>, \<open>start_at\<close>, \<open>end_by\<close> and \<open>weighting\<close> are the entries of
  \<^verbatim>\<open>tariff_config\<close> (\<^verbatim>\<open>None\<close> where not set, times already in decimal hours).
\<close>

definition agile_clamp :: "real option \<Rightarrow> real" where
  "agile_clamp duration =
     (case duration of None \<Rightarrow> 3 | Some d \<Rightarrow> if 6 < d then 6 else if d < 1 then 1 else d)"

definition agile_duration :: "real option \<Rightarrow> real" where
  "agile_duration duration = of_int (py_round (agile_clamp duration * 2 + 0.49)) / 2"

definition agile_span :: "real option \<Rightarrow> int" where
  "agile_span duration = py_int (agile_duration duration * 2)"

definition agile_start_i :: "real option \<Rightarrow> int" where
  "agile_start_i start_at =
     py_int (round_time_num ((case start_at of None \<Rightarrow> 23 | Some s \<Rightarrow> s) - 23) * 2)"

definition agile_end_i :: "real option \<Rightarrow> real option \<Rightarrow> real option \<Rightarrow> int" where
  "agile_end_i duration start_at end_by =
     (let start_i = agile_start_i start_at;
          end_i = py_int (round_time_num
                    ((case end_by of None \<Rightarrow> 8 | Some e \<Rightarrow> e) - 23 - agile_duration duration) * 2)
      in if end_i < start_i then start_i else end_i)"

definition agile_weights :: "real list option \<Rightarrow> int \<Rightarrow> real list" where
  "agile_weights weighting nspan =
     (case weighting of
        None \<Rightarrow> replicate (nat nspan) 1
      | Some ws \<Rightarrow> py_upto (ws @ replicate (nat nspan) 0) nspan)"

text \<open>
  The weighted average of the window that starts at slot \<open>i\<close>,
  \<^verbatim>\<open>sum(p * w for p,w in zip(p_span, weights)) / sum(weights)\<close>, computed in floats: each
  product, the two sums and the division round. \<open>prices\<close> and \<open>weights\<close> are lists of
  floats. The value the loop compares is that average rounded to two decimals.
\<close>

definition agile_wavg ::
  "(real \<Rightarrow> real) \<Rightarrow> summation \<Rightarrow> real list \<Rightarrow> real list \<Rightarrow> int \<Rightarrow> int \<Rightarrow> real" where
  "agile_wavg rnd sm prices weights nspan i =
     rnd (py_sum rnd sm (map (\<lambda>(p, w). rnd (p * w)) (zip (py_slice prices i (i + nspan)) weights))
            / py_sum rnd sm weights)"

definition agile_score ::
  "(real \<Rightarrow> real) \<Rightarrow> summation \<Rightarrow> real list \<Rightarrow> real list \<Rightarrow> int \<Rightarrow> int \<Rightarrow> real" where
  "agile_score rnd sm prices weights nspan i =
     py_round2 rnd (agile_wavg rnd sm prices weights nspan i)"

text \<open>
  The loop \<^verbatim>\<open>for i in range(start_i, end_i + 1)\<close> with its state \<^verbatim>\<open>(min_i, min_v)\<close>,
  which is \<^verbatim>\<open>None\<close> before the first slot. The division raises when the weights add
  up to zero.
\<close>

fun agile_scan ::
  "(real \<Rightarrow> real) \<Rightarrow> summation \<Rightarrow> string list \<Rightarrow> real list \<Rightarrow> real list \<Rightarrow> int \<Rightarrow> int list
     \<Rightarrow> (int \<times> real) option \<Rightarrow> error + (int \<times> real) option" where
  "agile_scan rnd sm tms prices weights nspan [] m = Inr m"
| "agile_scan rnd sm tms prices weights nspan (i # is) m =
     (case py_get tms i of
        Inl e \<Rightarrow> Inl e
      | Inr start \<Rightarrow>
          if py_sum rnd sm weights = 0 then Inl ZeroDivisionError
          else (let wavg = agile_score rnd sm prices weights nspan i
                in agile_scan rnd sm tms prices weights nspan is
                     (case m of
                        None \<Rightarrow> Some (i, wavg)
                      | Some (min_i, min_v) \<Rightarrow>
                          if wavg < min_v then Some (i, wavg) else Some (min_i, min_v))))"

record agile_period =
  p_times :: "string list"
  p_prices :: "real list"
  p_span :: int
  p_start :: string
  p_end :: string
  p_price :: real

text \<open>
  The prices of \<open>results\<close> and the weights of \<open>weighting\<close> are decimal numbers, which
  Python reads as the nearest floats: the lists \<^verbatim>\<open>prices\<close> and \<^verbatim>\<open>weights\<close> of the code
  hold those floats.
\<close>

definition get_agile_period ::
  "(real \<Rightarrow> real) \<Rightarrow> summation \<Rightarrow> real option \<Rightarrow> real option \<Rightarrow> real option
     \<Rightarrow> real list option \<Rightarrow> (string \<times> real) list \<Rightarrow> error + agile_period option" where
  "get_agile_period rnd sm duration start_at end_by weighting results =
     (let nspan = agile_span duration;
          tms = map fst results;
          prices = map (\<lambda>r. rnd (snd r)) results;
          start_i = agile_start_i start_at;
          end_i = agile_end_i duration start_at end_by;
          weights = map rnd (agile_weights weighting nspan)
      in if int (length results) < end_i + nspan then Inr None
         else
           (case agile_scan rnd sm tms prices weights nspan [start_i..end_i] None of
              Inl e \<Rightarrow> Inl e
            | Inr None \<Rightarrow> Inl TypeError
            | Inr (Some (min_i, min_v)) \<Rightarrow>
                (case py_get tms min_i of
                   Inl e \<Rightarrow> Inl e
                 | Inr start \<Rightarrow>
                     (case py_get tms (min_i + nspan) of
                        Inl e \<Rightarrow> Inl e
                      | Inr end_t \<Rightarrow>
                          Inr (Some \<lparr>p_times = tms, p_prices = prices, p_span = nspan,
                                     p_start = start, p_end = end_t, p_price = min_v\<rparr>)))))"

text \<open>
  The value that Python compares for the candidate window that starts at slot \<open>i\<close> of
  \<open>results\<close>, and its float average before the rounding to two decimals.
\<close>

abbreviation slot_score ::
  "summation \<Rightarrow> real option \<Rightarrow> real list option \<Rightarrow> (string \<times> real) list \<Rightarrow> int \<Rightarrow> real" where
  "slot_score sm duration weighting results i \<equiv>
     agile_score binary64 sm (map (\<lambda>r. binary64 (snd r)) results)
       (map binary64 (agile_weights weighting (agile_span duration))) (agile_span duration) i"

abbreviation slot_wavg ::
  "summation \<Rightarrow> real option \<Rightarrow> real list option \<Rightarrow> (string \<times> real) list \<Rightarrow> int \<Rightarrow> real" where
  "slot_wavg sm duration weighting results i \<equiv>
     agile_wavg binary64 sm (map (\<lambda>r. binary64 (snd r)) results)
       (map binary64 (agile_weights weighting (agile_span duration))) (agile_span duration) i"

section \<open>Time lines of \<^verbatim>\<open>charge_needed\<close>\<close>

text \<open>
  \<^verbatim>\<open>timed_list(data, hour_now, run_time)\<close>: rotate a 24 hour list so that it starts at the
  current hour and cut two copies of it to \<^verbatim>\<open>run_time\<close> entries.
\<close>

definition timed_list :: "'a list \<Rightarrow> real \<Rightarrow> int option \<Rightarrow> 'a list" where
  "timed_list data hour_now run_time =
     (let h = py_int hour_now;
          data1 = py_from data h @ py_upto data h
      in case run_time of None \<Rightarrow> data1 | Some n \<Rightarrow> py_upto (data1 @ data1) n)"

text \<open>The default profile of consumption by hour of the day.\<close>

definition medium_profile :: "real list" where
  "medium_profile =
     [28, 28, 28, 28, 28, 28, 36, 49, 65, 70, 65, 49, 44, 44, 49, 63, 92, 99, 92, 63, 47, 39, 33, 31]"

text \<open>
  The number of hours to simulate, as \<^verbatim>\<open>charge_needed\<close> works it out from the start of
  the AM and PM charge periods of the tariff, the current hour \<^verbatim>\<open>base_hour\<close> and the
  clock change \<^verbatim>\<open>hour_adjustment\<close> within the next two days.
\<close>

definition time_to_am :: "real \<Rightarrow> int \<Rightarrow> real" where
  "time_to_am start_am base_hour = round_time_num (start_am - of_int base_hour)"

definition time_to_pm :: "real \<Rightarrow> int \<Rightarrow> real option" where
  "time_to_pm start_pm base_hour =
     (if 0 < start_pm then Some (round_time_num (start_pm - of_int base_hour)) else None)"

definition run_time_hours :: "real \<Rightarrow> real \<Rightarrow> int \<Rightarrow> int \<Rightarrow> int" where
  "run_time_hours start_am start_pm base_hour hour_adjustment =
     (let to_am = time_to_am start_am base_hour;
          to_pm = time_to_pm start_pm base_hour;
          charge_pm = (case to_pm of None \<Rightarrow> False | Some t \<Rightarrow> t < to_am)
      in py_int ((if charge_pm then to_am
                  else case to_pm of None \<Rightarrow> to_am + 24 | Some t \<Rightarrow> t) + 0.99)
           + 1 + hour_adjustment)"

section \<open>Energy balance and charge decision of \<^verbatim>\<open>charge_needed\<close>\<close>

text \<open>
  \<^verbatim>\<open>interpolate(f, v)\<close>: the value of the list \<open>v\<close> at the fractional index \<open>f\<close>.
\<close>

definition interpolate :: "real \<Rightarrow> real list \<Rightarrow> real option" where
  "interpolate f v =
     (if length v = 0 then None
      else if f < 0 then Some (v ! 0)
      else if of_int (int (length v) - 1) \<le> f then Some (last v)
      else (let i = py_int f; x = f - of_int i
            in Some (v ! nat i * (1 - x) + v ! nat (i + 1) * x)))"

text \<open>
  The values \<^verbatim>\<open>charge_needed\<close> holds when it starts to track the battery residual:
  battery state, time lines after losses, limits and work mode, and the settings of
  \<^verbatim>\<open>charge_config\<close>. \<open>special_day\<close> stands for \<^verbatim>\<open>tomorrow[-5:] in special_days\<close> and
  \<open>full_charge\<close> for \<^verbatim>\<open>full_charge is not None\<close>.
\<close>

record scenario =
  residual :: real
  capacity :: real
  reserve :: real
  hour_now :: real
  base_hour :: int
  run_time :: int
  time_to_next :: int
  time_to_start :: real
  charge_timed :: "real list"
  discharge_timed :: "real list"
  charge_loss :: real
  bms_power :: real
  consumption :: real
  contingency :: real
  special_contingency :: real
  special_day :: bool
  charge_pm :: bool
  min_kwh :: real
  min_hours :: real
  full_charge :: bool
  test_charge :: "real option"
  force_charge :: int
  charge_limit :: real
  charge_time :: real
  start_at :: real

record sim_state =
  kwh_current :: real
  reserve_drain :: real
  bat_timed :: "real list"
  kwh_min :: real
  min_hour :: int

text \<open>
  \<^verbatim>\<open>kwh_timed\<close>, the net energy of each hour:
  \<^verbatim>\<open>[charge * charge_loss - discharge for charge, discharge in zip(...)]\<close>.
\<close>

definition kwh_timed :: "scenario \<Rightarrow> real list" where
  "kwh_timed sc =
     map (\<lambda>(charge, discharge). charge * charge_loss sc - discharge)
       (zip (charge_timed sc) (discharge_timed sc))"

text \<open>A \<^verbatim>\<open>for i in range(...)\<close> loop whose body can raise.\<close>

fun for_range :: "('s \<Rightarrow> nat \<Rightarrow> error + 's) \<Rightarrow> nat list \<Rightarrow> 's \<Rightarrow> error + 's" where
  "for_range body [] st = Inr st"
| "for_range body (i # is) st =
     (case body st i of Inl e \<Rightarrow> Inl e | Inr st' \<Rightarrow> for_range body is st')"

text \<open>
  One hour of the first pass (no charge added). At or below the reserve and up to the
  hour of the next charge the residual is held at \<^verbatim>\<open>reserve_drain\<close>; the residual is
  capped at the capacity, recorded, and the minimum and its hour are tracked.
\<close>

definition baseline_step :: "scenario \<Rightarrow> real list \<Rightarrow> sim_state \<Rightarrow> nat \<Rightarrow> error + sim_state" where
  "baseline_step sc kt st i =
     (let held = (kwh_current st \<le> reserve sc \<and> int i \<le> time_to_next sc);
          drain0 = (if reserve_drain st < capacity sc * 6 / 100 then reserve sc
                    else reserve_drain st);
          cur1 = (if held then drain0 else kwh_current st);
          drain = (if held then drain0 - bms_power sc / 1000 else reserve sc);
          cur = (if capacity sc < cur1 then capacity sc else cur1);
          lower = (cur < kwh_min st)
      in case py_get kt (int i) of
           Inl e \<Rightarrow> Inl e
         | Inr d \<Rightarrow>
             Inr \<lparr>kwh_current = cur + d, reserve_drain = drain,
                  bat_timed = bat_timed st @ [cur],
                  kwh_min = (if lower then cur else kwh_min st),
                  min_hour = (if lower then base_hour sc + int i else min_hour st)\<rparr>)"

text \<open>
  The first pass: the residual is taken back to the start of the current hour, then the
  loop runs over \<^verbatim>\<open>range(0, run_time)\<close>.
\<close>

definition baseline_sim :: "scenario \<Rightarrow> real list \<Rightarrow> error + sim_state" where
  "baseline_sim sc kt =
     (case py_get kt 0 of
        Inl e \<Rightarrow> Inl e
      | Inr k0 \<Rightarrow>
          (let cur0 = residual sc - k0 * (hour_now sc - of_int (base_hour sc))
           in for_range (baseline_step sc kt) [0..<nat (run_time sc)]
                \<lparr>kwh_current = cur0, reserve_drain = reserve sc, bat_timed = [],
                 kwh_min = cur0, min_hour = base_hour sc\<rparr>))"

definition baseline :: "scenario \<Rightarrow> error + sim_state" where
  "baseline sc = baseline_sim sc (kwh_timed sc)"

text \<open>
  One hour of the second pass (with the charge added): the residual is held at
  \<^verbatim>\<open>reserve_drain\<close> whenever it is at or below the reserve, and the minimum is no longer
  tracked. \<open>kt\<close> is \<^verbatim>\<open>kwh_timed\<close> rebuilt from the reworked time lines, and \<open>st1\<close> the
  state the first pass ended in.
\<close>

definition charged_step :: "scenario \<Rightarrow> real list \<Rightarrow> sim_state \<Rightarrow> nat \<Rightarrow> error + sim_state" where
  "charged_step sc kt st i =
     (let held = (kwh_current st \<le> reserve sc);
          drain0 = (if reserve_drain st < capacity sc * 6 / 100 then reserve sc
                    else reserve_drain st);
          cur1 = (if held then drain0 else kwh_current st);
          drain = (if held then drain0 - bms_power sc / 1000 else reserve sc);
          cur = (if capacity sc < cur1 then capacity sc else cur1)
      in case py_get kt (int i) of
           Inl e \<Rightarrow> Inl e
         | Inr d \<Rightarrow>
             Inr (st\<lparr>kwh_current := cur + d, reserve_drain := drain,
                     bat_timed := bat_timed st @ [cur]\<rparr>))"

definition charged_sim :: "scenario \<Rightarrow> real list \<Rightarrow> sim_state \<Rightarrow> error + sim_state" where
  "charged_sim sc kt st1 =
     (case py_get kt 0 of
        Inl e \<Rightarrow> Inl e
      | Inr k0 \<Rightarrow>
          for_range (charged_step sc kt) [0..<nat (run_time sc)]
            (st1\<lparr>kwh_current := residual sc - k0 * (hour_now sc - of_int (base_hour sc)),
                  reserve_drain := reserve sc, bat_timed := []\<rparr>))"

text \<open>
  The contingency and the energy to add,
  \<^verbatim>\<open>kwh_needed = reserve + kwh_contingency - kwh_min\<close>.
\<close>

definition contingency_used :: "scenario \<Rightarrow> real" where
  "contingency_used sc =
     (if special_day sc \<and> \<not> charge_pm sc then special_contingency sc else contingency sc)"

definition kwh_contingency :: "scenario \<Rightarrow> real" where
  "kwh_contingency sc = consumption sc * contingency_used sc / 100"

definition kwh_needed_calc :: "scenario \<Rightarrow> sim_state \<Rightarrow> real" where
  "kwh_needed_calc sc st = reserve sc + kwh_contingency sc - kwh_min st"

record plan =
  charge_message :: string
  kwh_needed :: real
  hours :: real
  end1 :: real

text \<open>
  The decision of \<^verbatim>\<open>charge_needed\<close> after the first pass: no charge, or the energy to
  add and the time it takes, with the full charge time used when a full charge is
  requested, the time exceeds the charge period, or the energy exceeds what the battery
  takes.
\<close>

definition charge_plan :: "scenario \<Rightarrow> error + plan" where
  "charge_plan sc =
     (case baseline sc of
        Inl e \<Rightarrow> Inl e
      | Inr st \<Rightarrow>
          (let needed = kwh_needed_calc sc st;
               start_residual = interpolate (time_to_start sc) (bat_timed st)
           in if reserve sc < kwh_min st \<and> needed < min_kwh sc \<and> \<not> full_charge sc
                 \<and> test_charge sc = None
              then Inr \<lparr>charge_message = ''no charge needed'', kwh_needed = 0, hours = 0,
                        end1 = start_at sc\<rparr>
              else
                (case start_residual of
                   None \<Rightarrow> Inl TypeError
                 | Some sr \<Rightarrow>
                     (let msg = (case test_charge sc of None \<Rightarrow> ''with charge added''
                                 | Some t \<Rightarrow> ''** test charge **'');
                          needed1 = (case test_charge sc of None \<Rightarrow> needed | Some t \<Rightarrow> t);
                          taper_time = (if capacity sc * 0.95 \<le> sr + needed1 then 10 / 60 else 0)
                      in case py_get (discharge_timed sc) (time_to_next sc) of
                           Inl e \<Rightarrow> Inl e
                         | Inr d \<Rightarrow>
                             if charge_limit sc * charge_loss sc + d = 0 then Inl ZeroDivisionError
                             else
                               (let hours0 = round_time_num
                                      (needed1 / (charge_limit sc * charge_loss sc + d) + taper_time);
                                    full = (full_charge sc \<or> force_charge sc = 2
                                            \<or> charge_time sc < hours0
                                            \<or> capacity sc * 1.05 < sr + needed1);
                                    needed2 = (if full then capacity sc - sr else needed1);
                                    hours1 = (if full then charge_time sc
                                              else if hours0 < min_hours sc then min_hours sc
                                              else hours0)
                                in Inr \<lparr>charge_message = msg, kwh_needed = needed2,
                                         hours = hours1,
                                         end1 = round_time_num (start_at sc + hours1)\<rparr>)))))"

text \<open>
  A small run: a PM charge period that starts in the current hour (12:00, three hours
  long) with the AM period one hour later, so that two hours are simulated; a 10 kWh
  battery with a 10% minimum holding 8 kWh, no generation and 3 kWh drawn per hour.
\<close>

definition example_scenario :: scenario where
  "example_scenario =
     \<lparr>residual = 8, capacity = 10, reserve = 1, hour_now = 12, base_hour = 12,
      run_time = 2, time_to_next = 0, time_to_start = 0,
      charge_timed = [0, 0], discharge_timed = [3, 3], charge_loss = 1, bms_power = 27,
      consumption = 32, contingency = 20, special_contingency = 33, special_day = False,
      charge_pm = True, min_kwh = 0.5, min_hours = 0.25, full_charge = False,
      test_charge = None, force_charge = 1, charge_limit = 3, charge_time = 3,
      start_at = 12\<rparr>"

section \<open>Times as text\<close>

text \<open>
  \<^verbatim>\<open>time_hours\<close> and \<^verbatim>\<open>hours_time\<close> convert between the text \<^verbatim>\<open>HH:MM:SS\<close> and decimal
  hours. Every float operation of theirs is followed by the rounding \<open>rnd\<close>.
\<close>

text \<open>
  Text: decimal digits, \<^verbatim>\<open>str.split\<close>, \<^verbatim>\<open>float(s)\<close> on a string of digits (which raises
  \<^verbatim>\<open>ValueError\<close> on the empty string) and the formats \<^verbatim>\<open>{x:02}\<close> and \<^verbatim>\<open>{x:0}\<close> of an
  integer.
\<close>

definition is_digit :: "char \<Rightarrow> bool" where
  "is_digit c = (48 \<le> (of_char c :: nat) \<and> (of_char c :: nat) \<le> 57)"

definition digit_val :: "char \<Rightarrow> nat" where
  "digit_val c = of_char c - 48"

definition digit_char :: "nat \<Rightarrow> char" where
  "digit_char n = char_of (48 + n)"

definition isnumeric :: "string \<Rightarrow> bool" where
  "isnumeric s = (s \<noteq> [] \<and> list_all is_digit s)"

definition count_char :: "char \<Rightarrow> string \<Rightarrow> nat" where
  "count_char c s = length (filter (\<lambda>x. x = c) s)"

definition remove_char :: "char \<Rightarrow> string \<Rightarrow> string" where
  "remove_char c s = filter (\<lambda>x. x \<noteq> c) s"

fun split_on :: "char \<Rightarrow> string \<Rightarrow> string list" where
  "split_on c [] = [[]]"
| "split_on c (x # xs) =
     (if x = c then [] # split_on c xs
      else (case split_on c xs of [] \<Rightarrow> [[x]] | p # ps \<Rightarrow> (x # p) # ps))"

definition digits_value :: "string \<Rightarrow> nat" where
  "digits_value s = foldl (\<lambda>n c. 10 * n + digit_val c) 0 s"

definition py_float :: "(real \<Rightarrow> real) \<Rightarrow> string \<Rightarrow> error + real" where
  "py_float rnd s =
     (if isnumeric s then Inr (rnd (of_nat (digits_value s))) else Inl ValueError)"

fun dec :: "nat \<Rightarrow> string" where
  "dec n = (if n < 10 then [digit_char n] else dec (n div 10) @ [digit_char (n mod 10)])"

declare dec.simps [simp del]

definition str_int :: "int \<Rightarrow> string" where
  "str_int x = (if x < 0 then CHR ''-'' # dec (nat (- x)) else dec (nat x))"

definition fmt02 :: "int \<Rightarrow> string" where
  "fmt02 x = (if 0 \<le> x \<and> x < 10 then CHR ''0'' # str_int x else str_int x)"

datatype pyval = PNone | PFloat real | PInt int | PStr string

text \<open>
  \<^verbatim>\<open>sum(float(t) / x for x, t in zip([1, 60, 3600], t.split(":")))\<close>: the terms are added
  from the left, starting from 0, and the first part that is not a number raises.
\<close>

fun sum_parts :: "(real \<Rightarrow> real) \<Rightarrow> real \<Rightarrow> (real \<times> string) list \<Rightarrow> error + real" where
  "sum_parts rnd acc [] = Inr acc"
| "sum_parts rnd acc ((x, t) # ps) =
     (case py_float rnd t of
        Inl e \<Rightarrow> Inl e
      | Inr v \<Rightarrow> sum_parts rnd (rnd (acc + rnd (v / x))) ps)"

text \<open>
  \<^verbatim>\<open>time_hours(t, d)\<close>: the result \<^verbatim>\<open>None\<close> stands for the message "invalid time string".
\<close>

definition time_hours :: "(real \<Rightarrow> real) \<Rightarrow> pyval \<Rightarrow> pyval \<Rightarrow> error + real option" where
  "time_hours rnd t0 d =
     (case (if t0 = PNone then d else t0) of
        PFloat x \<Rightarrow> Inr (Some x)
      | PInt n \<Rightarrow> Inr (Some (rnd (of_int n)))
      | PStr t \<Rightarrow>
          if isnumeric (remove_char CHR '':'' t) \<and> count_char CHR '':'' t \<le> 2
          then (case sum_parts rnd 0
                       (zip [1, 60, 3600]
                          (split_on CHR '':'' (if count_char CHR '':'' t = 1 then t @ '':00'' else t))) of
                  Inl e \<Rightarrow> Inl e
                | Inr h \<Rightarrow> Inr (Some h))
          else Inr None
      | PNone \<Rightarrow> Inr None)"

text \<open>
  The two loops of \<^verbatim>\<open>hours_time\<close>, which also count the days \<open>d\<close>. With rounded
  arithmetic \<open>h + 24\<close> can round back to \<open>h\<close>, so the loops are partial.
\<close>

partial_function (option) days_up :: "(real \<Rightarrow> real) \<Rightarrow> real \<Rightarrow> int \<Rightarrow> (real \<times> int) option" where
  "days_up rnd h d = (if h < 0 then days_up rnd (rnd (h + 24)) (d - 1) else Some (h, d))"

partial_function (option) days_down :: "(real \<Rightarrow> real) \<Rightarrow> real \<Rightarrow> int \<Rightarrow> (real \<times> int) option" where
  "days_down rnd h d = (if 24 \<le> h then days_down rnd (rnd (h - 24)) (d + 1) else Some (h, d))"

declare days_up.simps [code] days_down.simps [code]

text \<open>
  Python's \<^verbatim>\<open>x % 60\<close> on floats is computed without rounding error.
\<close>

definition fmod60 :: "real \<Rightarrow> real" where
  "fmod60 x = x - 60 * of_int \<lfloor>x / 60\<rfloor>"

definition hours_time :: "(real \<Rightarrow> real) \<Rightarrow> real option \<Rightarrow> bool \<Rightarrow> bool \<Rightarrow> bool \<Rightarrow> string option" where
  "hours_time rnd h0 ss day mm =
     (case h0 of
        None \<Rightarrow> Some ''None''
      | Some h1 \<Rightarrow>
          (case days_up rnd h1 0 of
             None \<Rightarrow> None
           | Some (h2, d2) \<Rightarrow>
               (case days_down rnd h2 d2 of
                  None \<Rightarrow> None
                | Some (h, d) \<Rightarrow>
                    Some (take (if ss then 8 else if mm then 5 else 2)
                            (fmt02 (py_int h) @ '':'' @ fmt02 (py_int (fmod60 (rnd (h * 60))))
                               @ '':'' @ fmt02 (py_int (fmod60 (rnd (h * 3600)))))
                          @ (if day then ''/'' @ str_int d else [])))))"

text \<open>The text \<^verbatim>\<open>HH:MM\<close> of an hour and a minute.\<close>

definition hhmm :: "nat \<Rightarrow> nat \<Rightarrow> string" where
  "hhmm hh mm = fmt02 (int hh) @ '':'' @ fmt02 (int mm)"

section \<open>Properties of the time functions\<close>

subsection \<open>The two roll-over loops compute the remainder modulo 24\<close>

lemma roll_up_closed: "roll_up h = (if h < 0 then h - 24 * of_int \<lfloor>h / 24\<rfloor> else h)"
proof (induction h rule: roll_up.induct)
  case (1 h)
  show ?case
  proof (cases "h < 0")
    case False
    then show ?thesis by (simp add: roll_up.simps)
  next
    case True
    have fl: "\<lfloor>(h + 24) / 24\<rfloor> = \<lfloor>h / 24\<rfloor> + 1"
    proof -
      have "(h + 24) / 24 = h / 24 + 1" by (simp add: field_simps)
      moreover have "\<lfloor>h / 24 + 1\<rfloor> = \<lfloor>h / 24\<rfloor> + 1" by simp
      ultimately show ?thesis by (simp only:)
    qed
    have step: "roll_up h = roll_up (h + 24)" using True by (subst roll_up.simps) simp
    show ?thesis
    proof (cases "h + 24 < 0")
      case True
      with 1 \<open>h < 0\<close> have "roll_up (h + 24) = (h + 24) - 24 * of_int \<lfloor>(h + 24) / 24\<rfloor>" by simp
      with step fl \<open>h < 0\<close> show ?thesis by simp
    next
      case False
      with 1 \<open>h < 0\<close> have r: "roll_up (h + 24) = h + 24" by simp
      have "\<lfloor>h / 24\<rfloor> = - 1" using False \<open>h < 0\<close> by (simp add: floor_eq_iff)
      with step r \<open>h < 0\<close> show ?thesis by simp
    qed
  qed
qed

lemma roll_down_closed: "0 \<le> x \<Longrightarrow> roll_down x = x - 24 * of_int \<lfloor>x / 24\<rfloor>"
proof (induction x rule: roll_down.induct)
  case (1 x)
  show ?case
  proof (cases "24 \<le> x")
    case False
    with 1 have "\<lfloor>x / 24\<rfloor> = 0" by (simp add: floor_eq_iff)
    with False show ?thesis by (simp add: roll_down.simps)
  next
    case True
    have fl: "\<lfloor>(x - 24) / 24\<rfloor> = \<lfloor>x / 24\<rfloor> - 1"
    proof -
      have "(x - 24) / 24 = x / 24 - 1" by (simp add: field_simps)
      then show ?thesis by (simp only: floor_diff_one)
    qed
    have step: "roll_down x = roll_down (x - 24)" using True by (subst roll_down.simps) simp
    from 1 True have "roll_down (x - 24) = (x - 24) - 24 * of_int \<lfloor>(x - 24) / 24\<rfloor>" by simp
    with step fl show ?thesis by simp
  qed
qed

lemma wrap24_closed: "wrap24 h = h - 24 * of_int \<lfloor>h / 24\<rfloor>"
proof (cases "h < 0")
  case False
  then show ?thesis by (simp add: wrap24_def roll_up_closed roll_down_closed)
next
  case True
  let ?x = "h - 24 * of_int \<lfloor>h / 24\<rfloor>"
  have b: "0 \<le> ?x \<and> ?x < 24" using floor_correct [of "h / 24"] by (simp add: field_simps)
  then have "\<lfloor>?x / 24\<rfloor> = 0" by (simp add: floor_eq_iff)
  with b True show ?thesis by (simp add: wrap24_def roll_up_closed roll_down_closed)
qed

lemma wrap24_range: "0 \<le> wrap24 h \<and> wrap24 h < 24"
  using floor_correct [of "h / 24"] by (simp add: wrap24_closed field_simps)

lemma wrap24_id: "0 \<le> h \<Longrightarrow> h < 24 \<Longrightarrow> wrap24 h = h"
proof -
  assume "0 \<le> h" "h < 24"
  then have "\<lfloor>h / 24\<rfloor> = 0" by (simp add: floor_eq_iff)
  then show ?thesis by (simp add: wrap24_closed)
qed

lemma wrap24_add24: "wrap24 (h + 24) = wrap24 h"
proof -
  have "(h + 24) / 24 = h / 24 + 1" by (simp add: field_simps)
  moreover have "\<lfloor>h / 24 + 1\<rfloor> = \<lfloor>h / 24\<rfloor> + 1" by simp
  ultimately have "\<lfloor>(h + 24) / 24\<rfloor> = \<lfloor>h / 24\<rfloor> + 1" by (simp only:)
  then show ?thesis by (simp add: wrap24_closed)
qed

lemma wrap24_idem: "wrap24 (wrap24 h) = wrap24 h"
  using wrap24_range [of h] by (simp add: wrap24_id)

lemma round_time_num_bounds: "0 \<le> round_time_num h \<and> round_time_num h \<le> 24"
proof -
  let ?w = "wrap24 h"
  have w: "0 \<le> ?w" "?w < 24" using wrap24_range [of h] by simp_all
  then have i: "py_int ?w = \<lfloor>?w\<rfloor>" by (simp add: py_int_def)
  have f0: "0 \<le> \<lfloor>?w\<rfloor>" using w by simp
  have f23: "\<lfloor>?w\<rfloor> \<le> 23" using w by (simp add: floor_le_iff)
  let ?m = "60 * (?w - of_int \<lfloor>?w\<rfloor>) + 0.5"
  have fr: "0 \<le> ?w - of_int \<lfloor>?w\<rfloor>" "?w - of_int \<lfloor>?w\<rfloor> < 1"
    using frac_ge_0 [of ?w] frac_lt_1 [of ?w] by (simp_all add: frac_def)
  have m: "0 \<le> ?m" "?m < 61" using fr by simp_all
  then have pm: "py_int ?m = \<lfloor>?m\<rfloor>" by (simp add: py_int_def)
  have m0: "0 \<le> \<lfloor>?m\<rfloor>" using m by simp
  have m60: "\<lfloor>?m\<rfloor> \<le> 60" using m by (simp add: floor_le_iff)
  have r: "round_time_num h = of_int \<lfloor>?w\<rfloor> + of_int \<lfloor>?m\<rfloor> / 60"
    by (simp only: round_time_num_def Let_def i pm)
  have "(0::real) \<le> of_int \<lfloor>?w\<rfloor>" using f0 by simp
  moreover have "(0::real) \<le> of_int \<lfloor>?m\<rfloor> / 60" using m0 by simp
  moreover have "(of_int \<lfloor>?w\<rfloor> :: real) \<le> 23" using f23 by simp
  moreover have "(of_int \<lfloor>?m\<rfloor> :: real) / 60 \<le> 1" using m60 by simp
  ultimately show ?thesis unfolding r by linarith
qed

subsection \<open>Period containment\<close>

text \<open>
  C7, as written: for every hour \<open>h\<close>, \<^verbatim>\<open>hour_in\<close> answers \<open>h \<ge> start \<or> h < end\<close> when
  \<open>start > end\<close>. The code first rolls \<open>h\<close> into \<open>[0, 24)\<close> and compares the rolled hour,
  so the raw comparison is not what it returns for an hour outside that range: hour 30
  against the period 22:00 - 04:00 is rolled to 6 and is outside the period, while
  \<open>30 \<ge> 22\<close> holds.
\<close>

theorem hour_in_raw_counterexample:
  "\<not> hour_in 30 (mk_period 22 4) \<and> ((22::real) \<le> 30 \<or> (30::real) < 4)"
  by (simp add: hour_in_def wrap24_closed)

text \<open>
  C7, amended: for every hour \<open>h\<close>, with \<open>h' = h - 24 \<lfloor>h / 24\<rfloor>\<close> the hour rolled into
  \<open>[0, 24)\<close> (so \<open>h' = h\<close> when \<open>0 \<le> h < 24\<close>), \<^verbatim>\<open>hour_in\<close> returns
  \<open>h' \<ge> start \<or> h' < end\<close> when \<open>start > end\<close> and \<open>start \<le> h' < end\<close> otherwise; it returns
  False for every \<open>h\<close> when \<open>start = end\<close>; the period 22:00 - 04:00 contains 23 and 1 and
  does not contain 10.
\<close>

theorem hour_in_wrapped:
  "hour_in h (mk_period s e) =
     (s \<noteq> e \<and> (if e < s then s \<le> wrap24 h \<or> wrap24 h < e else s \<le> wrap24 h \<and> wrap24 h < e))
   \<and> wrap24 h = h - 24 * of_int \<lfloor>h / 24\<rfloor>
   \<and> (0 \<le> h \<and> h < 24 \<longrightarrow> wrap24 h = h)
   \<and> \<not> hour_in h (mk_period s s)
   \<and> hour_in 23 (mk_period 22 4) \<and> hour_in 1 (mk_period 22 4) \<and> \<not> hour_in 10 (mk_period 22 4)"
  by (simp add: hour_in_def Let_def wrap24_id wrap24_closed [symmetric])

theorem hour_in_wrapped_witness:
  "(0::real) \<le> 23 \<and> (23::real) < 24 \<and> wrap24 23 = 23 \<and> hour_in 23 (mk_period 22 4)"
proof -
  have "0 \<le> (23::real) \<and> (23::real) < 24 \<longrightarrow> wrap24 23 = 23"
    using hour_in_wrapped [of 23 22 4] by blast
  moreover have "hour_in 23 (mk_period 22 4)"
    using hour_in_wrapped [of 23 22 4] by blast
  ultimately show ?thesis by simp
qed

text \<open>
  C10: \<^verbatim>\<open>hour_in\<close> is 24-periodic in its hour argument: for every period \<open>p\<close> (also the
  missing period \<^verbatim>\<open>None\<close>) and every real \<open>h\<close>, \<open>hour_in (h + 24) p = hour_in h p\<close>, and
  \<open>hour_in h p\<close> equals \<open>hour_in\<close> of \<open>h\<close> rolled into \<open>[0, 24)\<close>. The hours
  \<^verbatim>\<open>base_hour + i\<close> that \<^verbatim>\<open>charge_needed\<close> passes are therefore tested as their hour of day.
\<close>

theorem hour_in_periodic:
  "hour_in (h + 24) p = hour_in h p \<and> hour_in h p = hour_in (wrap24 h) p"
  by (simp add: hour_in_def Let_def wrap24_add24 wrap24_idem split: option.split)

subsection \<open>Rounding a rolled time to the minute\<close>

text \<open>
  C9: \<^verbatim>\<open>round_time\<close> is to return a value in \<open>[0, 24)\<close>. The code rolls the hour into
  \<open>[0, 24)\<close> first and rounds to the minute afterwards, and the rounding is not rolled
  over: 23.995 (23:59:42) has 59.7 minutes, which round to 60, and the result is 24.
  The result always lies in the closed interval \<open>[0, 24]\<close> (\<open>round_time_num_bounds\<close>).
\<close>

theorem round_time_reaches_24: "round_time (Some 23.995) = Some 24"
  by (simp add: round_time_def round_time_num_def wrap24_closed py_int_def)

section \<open>Properties of the price window\<close>

subsection \<open>Rounding and the number of half-hour slots\<close>

lemma py_int_of_int: "py_int (of_int n) = n"
  by (simp add: py_int_def)

lemma py_round_near: "x - 1 / 2 \<le> of_int (py_round x) \<and> of_int (py_round x) \<le> x + 1 / 2"
proof -
  have "of_int \<lfloor>x\<rfloor> \<le> x" "x < of_int \<lfloor>x\<rfloor> + 1" by linarith+
  then show ?thesis by (auto simp: py_round_def Let_def; linarith)
qed

lemma agile_clamp_range: "1 \<le> agile_clamp d \<and> agile_clamp d \<le> 6"
  by (simp add: agile_clamp_def split: option.split)

lemma agile_span_eq: "agile_span d = py_round (agile_clamp d * 2 + 0.49)"
  by (simp add: agile_span_def agile_duration_def py_int_of_int)

lemma agile_span_bounds: "2 \<le> agile_span d \<and> agile_span d \<le> 12"
proof -
  let ?c = "agile_clamp d"
  have r: "1 \<le> ?c" "?c \<le> 6" using agile_clamp_range [of d] by simp_all
  have n: "?c * 2 + 49 / 100 - 1 / 2 \<le> of_int (agile_span d)"
          "of_int (agile_span d) \<le> ?c * 2 + 49 / 100 + 1 / 2"
    using py_round_near [of "?c * 2 + 0.49"] by (simp_all add: agile_span_eq)
  have "2 \<le> agile_span d" using n(1) r(1) by linarith
  moreover have "agile_span d \<le> 12" using n(2) r(2) by linarith
  ultimately show ?thesis by simp
qed

lemma py_round_down: "\<lfloor>y\<rfloor> = n \<Longrightarrow> y - of_int n < 1 / 2 \<Longrightarrow> py_round y = n"
  by (simp add: py_round_def Let_def)

lemma py_round_up: "\<lfloor>y\<rfloor> = n \<Longrightarrow> 1 / 2 < y - of_int n \<Longrightarrow> py_round y = n + 1"
  by (simp add: py_round_def Let_def)

lemma py_round_frac:
  assumes "frac x = 0 \<or> 1 / 100 < frac x"
  shows "py_round (x + 49 / 100) = \<lceil>x\<rceil>"
proof -
  let ?n = "\<lfloor>x\<rfloor>"
  have x: "x = of_int ?n + frac x" by (simp add: frac_def)
  have f: "0 \<le> frac x" "frac x < 1" by (simp_all add: frac_lt_1)
  consider (z) "frac x = 0" | (lo) "1 / 100 < frac x" "frac x < 51 / 100" | (hi) "51 / 100 \<le> frac x"
    using assms by linarith
  then show ?thesis
  proof cases
    case z
    then have xi: "x = of_int ?n" using x by simp
    have "\<lfloor>x + 49 / 100\<rfloor> = ?n" by (rule floor_unique) (use xi in linarith)+
    moreover have "x + 49 / 100 - of_int ?n < 1 / 2" using xi by linarith
    ultimately have "py_round (x + 49 / 100) = ?n" by (rule py_round_down)
    moreover have "\<lceil>x\<rceil> = ?n" by (subst xi) simp
    ultimately show ?thesis by simp
  next
    case lo
    have "\<lfloor>x + 49 / 100\<rfloor> = ?n" by (rule floor_unique) (use x lo f in linarith)+
    moreover have "1 / 2 < x + 49 / 100 - of_int ?n" using x lo by linarith
    ultimately have "py_round (x + 49 / 100) = ?n + 1" by (rule py_round_up)
    moreover have "\<lceil>x\<rceil> = ?n + 1" by (rule ceiling_unique) (use x lo f in simp_all)
    ultimately show ?thesis by simp
  next
    case hi
    have "\<lfloor>x + 49 / 100\<rfloor> = ?n + 1" by (rule floor_unique) (use x hi f in simp_all)
    moreover have "x + 49 / 100 - of_int (?n + 1) < 1 / 2" using x hi f by simp
    ultimately have "py_round (x + 49 / 100) = ?n + 1" by (rule py_round_down)
    moreover have "\<lceil>x\<rceil> = ?n + 1" by (rule ceiling_unique) (use x hi f in simp_all)
    ultimately show ?thesis by simp
  qed
qed

text \<open>
  C5, as written: the number of half-hour slots is \<open>2 \<times> ceil(duration)\<close> for the duration
  clamped to \<open>[1, 6]\<close>, hence always even. The code rounds the duration up to half
  hours, not to whole hours: a duration of 1.5 hours gives 3 slots, where
  \<open>2 \<times> ceil(1.5) = 4\<close>.
\<close>

theorem agile_span_odd_counterexample:
  "agile_span (Some 1.5) = 3 \<and> 2 * \<lceil>agile_clamp (Some 1.5)\<rceil> = 4 \<and> odd (agile_span (Some 1.5))"
  by (simp add: agile_span_eq agile_clamp_def py_round_def)

text \<open>
  C5, amended: with \<open>d\<close> the duration clamped to \<open>[1, 6]\<close> (3 when not set), the number of
  half-hour slots is \<open>round(2 d + 0.49)\<close>, which lies between 2 and 12. It is \<open>ceil(2 d)\<close>,
  the duration rounded up to half hours, whenever \<open>2 d\<close> is whole or its fractional part
  exceeds 0.01; and when \<open>d\<close> is a whole number of hours it is \<open>2 \<times> ceil(d)\<close> and even.
\<close>

theorem agile_span_half_hours:
  "2 \<le> agile_span d \<and> agile_span d \<le> 12
   \<and> agile_span d = py_round (agile_clamp d * 2 + 0.49)
   \<and> (frac (agile_clamp d * 2) = 0 \<or> 1 / 100 < frac (agile_clamp d * 2)
        \<longrightarrow> agile_span d = \<lceil>agile_clamp d * 2\<rceil>)
   \<and> (agile_clamp d \<in> \<int> \<longrightarrow> agile_span d = 2 * \<lceil>agile_clamp d\<rceil> \<and> even (agile_span d))"
proof -
  let ?c = "agile_clamp d"
  have lo: "2 \<le> agile_span d" and hi: "agile_span d \<le> 12"
    using agile_span_bounds [of d] by simp_all
  have fr: "frac (?c * 2) = 0 \<or> 1 / 100 < frac (?c * 2) \<longrightarrow> agile_span d = \<lceil>?c * 2\<rceil>"
    using py_round_frac [of "?c * 2"] by (simp add: agile_span_eq)
  have whole: "?c \<in> \<int> \<longrightarrow> agile_span d = 2 * \<lceil>?c\<rceil> \<and> even (agile_span d)"
  proof
    assume "?c \<in> \<int>"
    then obtain k :: int where k: "?c = of_int k" by (auto elim: Ints_cases)
    have "?c * 2 = of_int (2 * k)" by (simp add: k)
    then have "frac (?c * 2) = 0" by (simp only: frac_of_int)
    with fr have "agile_span d = \<lceil>?c * 2\<rceil>" by simp
    also have "\<dots> = 2 * k" using \<open>?c * 2 = of_int (2 * k)\<close> by (simp only: ceiling_of_int)
    finally have s: "agile_span d = 2 * k" .
    have "\<lceil>?c\<rceil> = k" by (simp add: k)
    with s show "agile_span d = 2 * \<lceil>?c\<rceil> \<and> even (agile_span d)" by simp
  qed
  from lo hi fr whole agile_span_eq [of d] show ?thesis by blast
qed

theorem agile_span_half_hours_witness:
  "frac (agile_clamp (Some 3) * 2) = 0 \<and> agile_clamp (Some 3) \<in> \<int>
   \<and> agile_span (Some 3) = 6 \<and> even (agile_span (Some 3))"
proof -
  have c: "agile_clamp (Some 3) = 3" by (simp add: agile_clamp_def)
  then have i: "agile_clamp (Some 3) \<in> \<int>" by simp
  have f: "frac (agile_clamp (Some 3) * 2) = 0" by (simp add: c)
  from i agile_span_half_hours [of "Some 3"]
  have "agile_span (Some 3) = 2 * \<lceil>agile_clamp (Some 3)\<rceil> \<and> even (agile_span (Some 3))" by blast
  with i c f show ?thesis by simp
qed

subsection \<open>The scan keeps the first slot with the lowest rounded average\<close>

lemma py_get_in_range: "0 \<le> i \<Longrightarrow> i < int (length xs) \<Longrightarrow> py_get xs i = Inr (xs ! nat i)"
  by (simp add: py_get_def Let_def)

lemma agile_scan_acc:
  assumes "py_sum rnd sm W \<noteq> 0"
    and "\<forall>i\<in>set is. 0 \<le> i \<and> i < int (length T)"
    and "sorted_wrt (<) (a # is)"
  shows "\<exists>mi. agile_scan rnd sm T P W n is (Some (a, agile_score rnd sm P W n a))
                 = Inr (Some (mi, agile_score rnd sm P W n mi))
             \<and> mi \<in> set (a # is)
             \<and> (\<forall>j\<in>set (a # is). agile_score rnd sm P W n mi \<le> agile_score rnd sm P W n j)
             \<and> (\<forall>j\<in>set (a # is). j < mi \<longrightarrow> agile_score rnd sm P W n mi < agile_score rnd sm P W n j)"
  using assms(2,3)
proof (induction "is" arbitrary: a)
  case Nil
  then show ?case by simp
next
  case (Cons i "is")
  let ?s = "agile_score rnd sm P W n"
  have get: "py_get T i = Inr (T ! nat i)" using Cons.prems(1) by (simp add: py_get_in_range)
  have rng: "\<forall>k\<in>set is. 0 \<le> k \<and> k < int (length T)" using Cons.prems(1) by simp
  have ai: "a < i" and a_is: "\<forall>k\<in>set is. a < k" and i_is: "\<forall>k\<in>set is. i < k"
    and s_is: "sorted_wrt (<) is"
    using Cons.prems(2) by auto
  show ?case
  proof (cases "?s i < ?s a")
    case True
    have step: "agile_scan rnd sm T P W n (i # is) (Some (a, ?s a)) = agile_scan rnd sm T P W n is (Some (i, ?s i))"
      using True assms(1) get by (simp add: Let_def)
    have "sorted_wrt (<) (i # is)" using i_is s_is by simp
    from Cons.IH [OF rng this] obtain mi where
      r: "agile_scan rnd sm T P W n is (Some (i, ?s i)) = Inr (Some (mi, ?s mi))"
      and m: "mi \<in> set (i # is)"
      and le: "\<forall>j\<in>set (i # is). ?s mi \<le> ?s j"
      and lt: "\<forall>j\<in>set (i # is). j < mi \<longrightarrow> ?s mi < ?s j"
      by blast
    have "?s mi \<le> ?s i" using le by simp
    with True have lta: "?s mi < ?s a" by linarith
    have "mi \<in> set (a # i # is)" using m by simp
    moreover have "\<forall>j\<in>set (a # i # is). ?s mi \<le> ?s j" using le lta by auto
    moreover have "\<forall>j\<in>set (a # i # is). j < mi \<longrightarrow> ?s mi < ?s j" using lt lta by auto
    ultimately show ?thesis using step r by auto
  next
    case False
    have step: "agile_scan rnd sm T P W n (i # is) (Some (a, ?s a)) = agile_scan rnd sm T P W n is (Some (a, ?s a))"
      using False assms(1) get by (simp add: Let_def)
    have "sorted_wrt (<) (a # is)" using a_is s_is by simp
    from Cons.IH [OF rng this] obtain mi where
      r: "agile_scan rnd sm T P W n is (Some (a, ?s a)) = Inr (Some (mi, ?s mi))"
      and m: "mi \<in> set (a # is)"
      and le: "\<forall>j\<in>set (a # is). ?s mi \<le> ?s j"
      and lt: "\<forall>j\<in>set (a # is). j < mi \<longrightarrow> ?s mi < ?s j"
      by blast
    have lea: "?s mi \<le> ?s a" using le by simp
    have "mi \<in> set (a # i # is)" using m by auto
    moreover have "\<forall>j\<in>set (a # i # is). ?s mi \<le> ?s j" using le lea False by auto
    moreover have "\<forall>j\<in>set (a # i # is). j < mi \<longrightarrow> ?s mi < ?s j"
    proof (intro ballI impI)
      fix j assume j: "j \<in> set (a # i # is)" and jm: "j < mi"
      show "?s mi < ?s j"
      proof (cases "j = i")
        case False
        with j have "j \<in> set (a # is)" by auto
        with lt jm show ?thesis by blast
      next
        case True
        with jm ai have "a < mi" by simp
        with lt have "?s mi < ?s a" by simp
        with \<open>\<not> ?s i < ?s a\<close> True show ?thesis by simp
      qed
    qed
    ultimately show ?thesis using step r by auto
  qed
qed

lemma agile_scan_first:
  assumes "py_sum rnd sm W \<noteq> 0" and "0 \<le> lo" and "lo \<le> hi" and "hi < int (length T)"
  shows "\<exists>mi. agile_scan rnd sm T P W n [lo..hi] None = Inr (Some (mi, agile_score rnd sm P W n mi))
             \<and> lo \<le> mi \<and> mi \<le> hi
             \<and> (\<forall>j. lo \<le> j \<and> j \<le> hi \<longrightarrow> agile_score rnd sm P W n mi \<le> agile_score rnd sm P W n j)
             \<and> (\<forall>j. lo \<le> j \<and> j < mi \<longrightarrow> agile_score rnd sm P W n mi < agile_score rnd sm P W n j)"
proof -
  have l: "[lo..hi] = lo # [lo + 1..hi]" using assms(3) by (simp add: upto_rec1)
  have get: "py_get T lo = Inr (T ! nat lo)" using assms by (simp add: py_get_in_range)
  have step: "agile_scan rnd sm T P W n [lo..hi] None
                = agile_scan rnd sm T P W n [lo + 1..hi] (Some (lo, agile_score rnd sm P W n lo))"
    using assms(1) get by (simp add: l Let_def)
  have rng: "\<forall>i\<in>set [lo + 1..hi]. 0 \<le> i \<and> i < int (length T)" using assms by auto
  have srt: "sorted_wrt (<) (lo # [lo + 1..hi])" by (simp add: sorted_wrt_upto)
  from agile_scan_acc [OF assms(1) rng srt, of P n] obtain mi where
    r: "agile_scan rnd sm T P W n [lo + 1..hi] (Some (lo, agile_score rnd sm P W n lo))
          = Inr (Some (mi, agile_score rnd sm P W n mi))"
    and m: "mi \<in> set (lo # [lo + 1..hi])"
    and le: "\<forall>j\<in>set (lo # [lo + 1..hi]). agile_score rnd sm P W n mi \<le> agile_score rnd sm P W n j"
    and lt: "\<forall>j\<in>set (lo # [lo + 1..hi]). j < mi \<longrightarrow> agile_score rnd sm P W n mi < agile_score rnd sm P W n j"
    by blast
  have s: "set (lo # [lo + 1..hi]) = {lo..hi}" using assms(3) by auto
  have "lo \<le> mi \<and> mi \<le> hi" using m s by auto
  moreover have "\<forall>j. lo \<le> j \<and> j \<le> hi \<longrightarrow> agile_score rnd sm P W n mi \<le> agile_score rnd sm P W n j"
    using le s by auto
  moreover have "\<forall>j. lo \<le> j \<and> j < mi \<longrightarrow> agile_score rnd sm P W n mi < agile_score rnd sm P W n j"
    using lt s \<open>lo \<le> mi \<and> mi \<le> hi\<close> by auto
  ultimately show ?thesis using step r by auto
qed


lemma round_time_num_nonneg: "0 \<le> round_time_num h"
  using round_time_num_bounds [of h] by simp

lemma agile_start_i_nonneg: "0 \<le> agile_start_i s"
proof -
  let ?x = "round_time_num ((case s of None \<Rightarrow> 23 | Some s \<Rightarrow> s) - 23) * 2"
  have "0 \<le> ?x" using round_time_num_nonneg by simp
  then have "py_int ?x = \<lfloor>?x\<rfloor>" "0 \<le> \<lfloor>?x\<rfloor>" by (simp_all add: py_int_def)
  then show ?thesis by (simp add: agile_start_i_def)
qed

lemma agile_start_le_end: "agile_start_i s \<le> agile_end_i d s e"
  by (simp add: agile_end_i_def Let_def)

text \<open>
  The default weights of a window of 2 to 12 slots add up to the number of slots in
  Python's floats, with either summation.
\<close>

lemma unit_weights_sum:
  "list_all (\<lambda>n. py_sum binary64 Plain (map binary64 (replicate n 1)) = real n
                \<and> py_sum binary64 Compensated (map binary64 (replicate n 1)) = real n) [0..<13]"
  by code_simp

lemma unit_weights_nonzero:
  assumes "2 \<le> n" and "n \<le> 12"
  shows "py_sum binary64 sm (map binary64 (agile_weights None n)) \<noteq> 0"
proof -
  have "nat n \<in> set [0..<13]" using assms by simp
  with unit_weights_sum
  have e: "py_sum binary64 Plain (map binary64 (replicate (nat n) 1)) = real (nat n)
         \<and> py_sum binary64 Compensated (map binary64 (replicate (nat n) 1)) = real (nat n)"
    unfolding list_all_iff by blast
  have "0 < nat n" using assms by simp
  then show ?thesis using e by (cases sm) (simp_all add: agile_weights_def)
qed

text \<open>
  C2, as written: the returned start slot has a weighted average no greater than that of
  every other candidate. The loop compares the averages rounded to two decimals, so a
  later candidate whose average is lower by less than a rounding step is not chosen:
  with a one-hour window, candidates 23:00 and 23:30 and the prices 5.004, 5.004, 4.998,
  the float averages are 5.004 and 5.0009999999999994, both are compared as 5.0, and
  23:00 is returned.
\<close>

theorem agile_unrounded_counterexample:
  "get_agile_period binary64 Plain (Some 1) (Some 23) (Some 0.5) None
     [(''23:00'', 5.004), (''23:30'', 5.004), (''00:00'', 4.998), (''00:30'', 9)]
   = Inr (Some \<lparr>p_times = [''23:00'', ''23:30'', ''00:00'', ''00:30''],
                 p_prices = map binary64 [5.004, 5.004, 4.998, 9], p_span = 2,
                 p_start = ''23:00'', p_end = ''00:00'', p_price = 5\<rparr>)
   \<and> get_agile_period binary64 Compensated (Some 1) (Some 23) (Some 0.5) None
        [(''23:00'', 5.004), (''23:30'', 5.004), (''00:00'', 4.998), (''00:30'', 9)]
     = get_agile_period binary64 Plain (Some 1) (Some 23) (Some 0.5) None
        [(''23:00'', 5.004), (''23:30'', 5.004), (''00:00'', 4.998), (''00:30'', 9)]
   \<and> agile_start_i (Some 23) = 0 \<and> agile_end_i (Some 1) (Some 23) (Some 0.5) = 1
   \<and> slot_wavg Plain (Some 1) None
        [(''23:00'', 5.004), (''23:30'', 5.004), (''00:00'', 4.998), (''00:30'', 9)] 1
     < slot_wavg Plain (Some 1) None
        [(''23:00'', 5.004), (''23:30'', 5.004), (''00:00'', 4.998), (''00:30'', 9)] 0
   \<and> slot_wavg Compensated (Some 1) None
        [(''23:00'', 5.004), (''23:30'', 5.004), (''00:00'', 4.998), (''00:30'', 9)] 1
     < slot_wavg Compensated (Some 1) None
        [(''23:00'', 5.004), (''23:30'', 5.004), (''00:00'', 4.998), (''00:30'', 9)] 0"
  by code_simp


text \<open>
  C2, amended: for uniform weights and a price series with more than \<open>end_i + span\<close>
  points, \<^verbatim>\<open>get_agile_period\<close> returns a period; its start is the time of a candidate
  slot \<open>mi\<close> in \<open>[start_i, end_i]\<close> whose weighted average, computed in Python's floats
  and rounded to two decimals (the reported price), is less than or equal to the rounded
  float average of every candidate, and strictly less than that of every earlier
  candidate, so that among candidates with the same lowest rounded average the earliest
  is returned. This holds with either summation of \<^verbatim>\<open>sum\<close>.
\<close>

theorem agile_window_rounded_optimal:
  assumes enough: "agile_end_i duration s_at e_by + agile_span duration < int (length results)"
  shows "\<exists>r mi. get_agile_period binary64 sm duration s_at e_by None results = Inr (Some r)
      \<and> agile_start_i s_at \<le> mi \<and> mi \<le> agile_end_i duration s_at e_by
      \<and> p_start r = fst (results ! nat mi)
      \<and> p_end r = fst (results ! nat (mi + agile_span duration))
      \<and> p_span r = agile_span duration
      \<and> p_price r = slot_score sm duration None results mi
      \<and> (\<forall>j. agile_start_i s_at \<le> j \<and> j \<le> agile_end_i duration s_at e_by
             \<longrightarrow> slot_score sm duration None results mi \<le> slot_score sm duration None results j)
      \<and> (\<forall>j. agile_start_i s_at \<le> j \<and> j < mi
             \<longrightarrow> slot_score sm duration None results mi < slot_score sm duration None results j)"
proof -
  let ?n = "agile_span duration"
  let ?lo = "agile_start_i s_at"
  let ?hi = "agile_end_i duration s_at e_by"
  let ?T = "map fst results"
  let ?P = "map (\<lambda>r. binary64 (snd r)) results"
  let ?W = "map binary64 (agile_weights None ?n)"
  have n2: "2 \<le> ?n" and n12: "?n \<le> 12" using agile_span_bounds [of duration] by simp_all
  have w: "py_sum binary64 sm ?W \<noteq> 0" using n2 n12 by (rule unit_weights_nonzero)
  have lo: "0 \<le> ?lo" by (rule agile_start_i_nonneg)
  have lohi: "?lo \<le> ?hi" by (rule agile_start_le_end)
  have hi: "?hi < int (length ?T)" using enough n2 by simp
  from agile_scan_first [OF w lo lohi hi, of ?P ?n] obtain mi where
    r: "agile_scan binary64 sm ?T ?P ?W ?n [?lo..?hi] None
          = Inr (Some (mi, agile_score binary64 sm ?P ?W ?n mi))"
    and b: "?lo \<le> mi" "mi \<le> ?hi"
    and le: "\<forall>j. ?lo \<le> j \<and> j \<le> ?hi
               \<longrightarrow> agile_score binary64 sm ?P ?W ?n mi \<le> agile_score binary64 sm ?P ?W ?n j"
    and lt: "\<forall>j. ?lo \<le> j \<and> j < mi
               \<longrightarrow> agile_score binary64 sm ?P ?W ?n mi < agile_score binary64 sm ?P ?W ?n j"
    by blast
  have g1: "py_get ?T mi = Inr (?T ! nat mi)" using b lo hi by (simp add: py_get_in_range)
  have g2: "py_get ?T (mi + ?n) = Inr (?T ! nat (mi + ?n))"
    using b lo n2 enough by (simp add: py_get_in_range)
  have i1: "nat mi < length results" using b lo hi by (simp add: nat_less_iff)
  have i2: "nat (mi + ?n) < length results" using b lo n2 enough by (simp add: nat_less_iff)
  let ?r = "\<lparr>p_times = ?T, p_prices = ?P, p_span = ?n, p_start = ?T ! nat mi,
             p_end = ?T ! nat (mi + ?n), p_price = agile_score binary64 sm ?P ?W ?n mi\<rparr>"
  have "get_agile_period binary64 sm duration s_at e_by None results = Inr (Some ?r)"
    using enough r g1 g2 by (simp add: get_agile_period_def Let_def)
  moreover have "p_start ?r = fst (results ! nat mi)" using i1 by simp
  moreover have "p_end ?r = fst (results ! nat (mi + ?n))" using i2 by simp
  ultimately show ?thesis using b le lt by (intro exI [of _ ?r] exI [of _ mi]) simp
qed

theorem agile_window_rounded_optimal_witness:
  "agile_end_i (Some 1) (Some 23) (Some 0.5) + agile_span (Some 1)
     < int (length [(''23:00'', 5.004 :: real), (''23:30'', 5.004), (''00:00'', 4.998), (''00:30'', 9)])
   \<and> (\<exists>r. get_agile_period binary64 Plain (Some 1) (Some 23) (Some 0.5) None
            [(''23:00'', 5.004), (''23:30'', 5.004), (''00:00'', 4.998), (''00:30'', 9)]
          = Inr (Some r))"
proof -
  have h: "agile_end_i (Some 1) (Some 23) (Some 0.5) + agile_span (Some 1)
     < int (length [(''23:00'', 5.004 :: real), (''23:30'', 5.004), (''00:00'', 4.998), (''00:30'', 9)])"
    by code_simp
  from agile_window_rounded_optimal [OF h, of Plain] h show ?thesis by blast
qed

text \<open>
  The float average decides between candidates: with a one-hour window, candidates 23:00
  and 23:30 and the prices 2.68, 2.68, 2.67, the float average of the second window is
  just below 2.675 and is compared as 2.67, so 23:30 is returned at 2.67. In exact
  arithmetic that average is the tie 2.675, which rounds to 2.68, and 23:00 would be
  returned.
\<close>

lemma agile_window_float_example:
  "get_agile_period binary64 Plain (Some 1) (Some 23) (Some 0.5) None
     [(''23:00'', 2.68), (''23:30'', 2.68), (''00:00'', 2.67), (''00:30'', 9)]
   = Inr (Some \<lparr>p_times = [''23:00'', ''23:30'', ''00:00'', ''00:30''],
                 p_prices = map binary64 [2.68, 2.68, 2.67, 9], p_span = 2,
                 p_start = ''23:30'', p_end = ''00:30'', p_price = binary64 2.67\<rparr>)
   \<and> get_agile_period binary64 Compensated (Some 1) (Some 23) (Some 0.5) None
        [(''23:00'', 2.68), (''23:30'', 2.68), (''00:00'', 2.67), (''00:30'', 9)]
     = get_agile_period binary64 Plain (Some 1) (Some 23) (Some 0.5) None
        [(''23:00'', 2.68), (''23:30'', 2.68), (''00:00'', 2.67), (''00:30'', 9)]
   \<and> get_agile_period exact Plain (Some 1) (Some 23) (Some 0.5) None
        [(''23:00'', 2.68), (''23:30'', 2.68), (''00:00'', 2.67), (''00:30'', 9)]
     = Inr (Some \<lparr>p_times = [''23:00'', ''23:30'', ''00:00'', ''00:30''],
                   p_prices = [2.68, 2.68, 2.67, 9], p_span = 2,
                   p_start = ''23:00'', p_end = ''00:00'', p_price = 2.68\<rparr>)"
  by code_simp

text \<open>
  Prices of 10 for the slots from 23:00 to 02:00 and from 05:00 on and of 5 from 02:00 to
  05:00, with a window of three hours between 23:00 and 08:00: the window 02:00 - 05:00
  is returned, at an average of 5.
\<close>

lemma agile_window_example:
  "get_agile_period binary64 Plain (Some 3) (Some 23) (Some 8) None
     (zip [''23:00'', ''23:30'', ''00:00'', ''00:30'', ''01:00'', ''01:30'', ''02:00'', ''02:30'',
           ''03:00'', ''03:30'', ''04:00'', ''04:30'', ''05:00'', ''05:30'', ''06:00'', ''06:30'',
           ''07:00'', ''07:30'', ''08:00'', ''08:30'']
          [10, 10, 10, 10, 10, 10, 5, 5, 5, 5, 5, 5, 10, 10, 10, 10, 10, 10, 10, 10])
   = Inr (Some \<lparr>p_times = [''23:00'', ''23:30'', ''00:00'', ''00:30'', ''01:00'', ''01:30'', ''02:00'', ''02:30'',
           ''03:00'', ''03:30'', ''04:00'', ''04:30'', ''05:00'', ''05:30'', ''06:00'', ''06:30'',
           ''07:00'', ''07:30'', ''08:00'', ''08:30''],
        p_prices = [10, 10, 10, 10, 10, 10, 5, 5, 5, 5, 5, 5, 10, 10, 10, 10, 10, 10, 10, 10],
        p_span = 6, p_start = ''02:00'', p_end = ''05:00'', p_price = 5\<rparr>)"
  by code_simp

section \<open>Properties of the time lines\<close>

text \<open>
  For a run time of at most twice the length of the profile, \<^verbatim>\<open>timed_list\<close> returns
  exactly that many entries, and entry \<open>i\<close> is the profile value of hour
  \<open>(floor(hour_now) + i) mod 24\<close>.
\<close>

lemma py_bound_le: "py_bound xs i \<le> length xs"
  by (auto simp: py_bound_def Let_def)

lemma rotated_length: "length (py_from xs h @ py_upto xs h) = length xs"
  using py_bound_le [of xs h] by (simp add: py_from_def py_upto_def)

lemma timed_list_length:
  assumes "0 \<le> n"
  shows "length (timed_list data h (Some n)) = min (nat n) (2 * length data)"
proof -
  define r where "r = py_from data (py_int h) @ py_upto data (py_int h)"
  have l: "length r = length data" unfolding r_def by (rule rotated_length)
  have t: "timed_list data h (Some n) = py_upto (r @ r) n"
    by (simp add: timed_list_def Let_def r_def)
  have pb: "py_bound (r @ r) n = min (nat n) (2 * length data)"
    using assms l by (simp add: py_bound_def Let_def)
  show ?thesis unfolding t py_upto_def pb using l by simp
qed

lemma timed_list_nth:
  assumes "0 \<le> h" and "h < of_nat (length data)" and "0 \<le> n"
    and "i < min (nat n) (2 * length data)"
  shows "timed_list data h (Some n) ! i = data ! ((nat \<lfloor>h\<rfloor> + i) mod length data)"
proof -
  let ?k = "nat \<lfloor>h\<rfloor>"
  let ?L = "length data"
  have k: "?k < ?L" using assms(1,2) by (simp add: floor_less_iff nat_less_iff)
  have pi: "py_int h = \<lfloor>h\<rfloor>" using assms(1) by (simp add: py_int_def)
  have fl0: "0 \<le> \<lfloor>h\<rfloor>" using assms(1) by simp
  have b: "py_bound data (py_int h) = ?k" using k fl0 by (simp add: py_bound_def pi Let_def)
  have rot: "py_from data (py_int h) @ py_upto data (py_int h) = rotate ?k data"
    using k by (simp add: py_from_def py_upto_def b rotate_drop_take)
  let ?r = "rotate ?k data"
  have t0: "timed_list data h (Some n) = py_upto (?r @ ?r) n"
    unfolding timed_list_def Let_def rot by simp
  have pb: "py_bound (?r @ ?r) n = min (nat n) (2 * ?L)"
    using assms(3) by (simp add: py_bound_def Let_def)
  have tl: "timed_list data h (Some n) = take (min (nat n) (2 * ?L)) (?r @ ?r)"
    unfolding t0 py_upto_def pb ..
  have i2: "i < nat n" "i < 2 * ?L" using assms(4) by simp_all
  have "timed_list data h (Some n) ! i = (?r @ ?r) ! i" using assms(4) unfolding tl by (rule nth_take)
  also have "\<dots> = ?r ! (i mod ?L)"
  proof (cases "i < ?L")
    case True then show ?thesis by (simp add: nth_append)
  next
    case False
    then have "i mod ?L = i - ?L" using i2(2) by (simp add: mod_if)
    with False show ?thesis by (simp add: nth_append)
  qed
  also have "\<dots> = data ! ((?k + i mod ?L) mod ?L)"
  proof -
    have "0 < ?L" using k by (cases data) simp_all
    then have "i mod ?L < ?L" by simp
    then show ?thesis by (rule nth_rotate)
  qed
  also have "(?k + i mod ?L) mod ?L = (?k + i) mod ?L" by (simp add: mod_add_right_eq)
  finally show ?thesis .
qed

text \<open>
  C6: the rotated time line is to hold exactly \<^verbatim>\<open>run_time\<close> entries for every run time
  that \<^verbatim>\<open>charge_needed\<close> computes. \<^verbatim>\<open>timed_list\<close> cuts the entries out of two copies
  of the rotated day, so it never returns more than 48: with the AM charge period of
  Octopus Go (00:30, no PM period) and the clock at 01:30 the run time is 49 hours, and
  the time line of the 24 hour consumption profile has 48 entries.
\<close>

theorem timed_list_short_of_run_time:
  "run_time_hours 0.5 0 1 0 = 49
   \<and> length (timed_list medium_profile 1.5 (Some (run_time_hours 0.5 0 1 0))) = 48"
  by code_simp

section \<open>Properties of the energy balance\<close>

subsection \<open>Loops over a range\<close>

lemma for_range_inv:
  assumes "for_range body is st = Inr st'" and "P st"
    and "\<And>s i s'. P s \<Longrightarrow> body s i = Inr s' \<Longrightarrow> P s'"
  shows "P st'"
  using assms(1,2)
proof (induction "is" arbitrary: st)
  case Nil
  then show ?case by simp
next
  case (Cons i "is")
  from Cons.prems(1) obtain s1 where b: "body st i = Inr s1" and r: "for_range body is s1 = Inr st'"
    by (auto split: sum.splits)
  from assms(3) [OF Cons.prems(2) b] have "P s1" .
  with Cons.IH r show ?case by blast
qed

lemma for_range_append:
  "for_range body (xs @ ys) st =
     (case for_range body xs st of Inl e \<Rightarrow> Inl e | Inr s \<Rightarrow> for_range body ys s)"
  by (induction xs arbitrary: st) (auto split: sum.splits)

lemma for_range_upt_inv:
  assumes "for_range body [0..<b] st = Inr st'" and "P 0 st"
    and "\<And>i s s'. i < b \<Longrightarrow> P i s \<Longrightarrow> body s i = Inr s' \<Longrightarrow> P (Suc i) s'"
  shows "P b st'"
  using assms
proof (induction b arbitrary: st')
  case 0
  then show ?case by simp
next
  case (Suc b)
  from Suc.prems(1) obtain s where r: "for_range body [0..<b] st = Inr s"
    and l: "body s b = Inr st'"
    by (auto simp: for_range_append split: sum.splits)
  have "P b s"
  proof (rule Suc.IH [OF r Suc.prems(2)])
    fix i s1 s2
    assume "i < b" "P i s1" "body s1 i = Inr s2"
    then show "P (Suc i) s2" using Suc.prems(3) [of i s1 s2] by simp
  qed
  then show ?case using Suc.prems(3) [of b s st'] l by simp
qed

lemma for_range_total:
  assumes "\<And>s i. i \<in> set is \<Longrightarrow> \<exists>s'. body s i = Inr s'"
  shows "\<exists>st'. for_range body is st = Inr st'"
  using assms
proof (induction "is" arbitrary: st)
  case Nil
  then show ?case by simp
next
  case (Cons i "is")
  from Cons.prems [of i st] obtain s1 where b: "body st i = Inr s1" by auto
  from Cons.IH [of s1] Cons.prems obtain s2 where "for_range body is s1 = Inr s2" by auto
  with b show ?case by simp
qed


lemma baseline_step_Inr:
  assumes "baseline_step sc kt st i = Inr st'"
  shows "\<exists>cur. bat_timed st' = bat_timed st @ [cur] \<and> cur \<le> capacity sc
           \<and> (0 \<le> reserve sc \<and> 0 \<le> capacity sc \<and> int i \<le> time_to_next sc \<longrightarrow> 0 \<le> cur)"
  using assms
  by (auto simp: baseline_step_def Let_def split: sum.splits if_splits)

lemma charged_step_Inr:
  assumes "charged_step sc kt st i = Inr st'"
  shows "\<exists>cur. bat_timed st' = bat_timed st @ [cur] \<and> cur \<le> capacity sc
           \<and> (0 \<le> reserve sc \<and> 0 \<le> capacity sc \<longrightarrow> 0 \<le> cur)"
  using assms
  by (auto simp: charged_step_def Let_def split: sum.splits if_splits)

lemma baseline_step_total: "i < length kt \<Longrightarrow> \<exists>st'. baseline_step sc kt st i = Inr st'"
  by (simp add: baseline_step_def Let_def py_get_def)

lemma charged_step_total: "i < length kt \<Longrightarrow> \<exists>st'. charged_step sc kt st i = Inr st'"
  by (simp add: charged_step_def Let_def py_get_def)

subsection \<open>Bounds of the residual time line\<close>

lemma baseline_sim_bounds:
  assumes "kt \<noteq> []" and "nat (run_time sc) \<le> length kt"
  shows "\<exists>b. baseline_sim sc kt = Inr b
      \<and> length (bat_timed b) = nat (run_time sc)
      \<and> (\<forall>v\<in>set (bat_timed b). v \<le> capacity sc)
      \<and> (0 \<le> reserve sc \<and> 0 \<le> capacity sc \<longrightarrow>
           (\<forall>i<nat (run_time sc). int i \<le> time_to_next sc \<longrightarrow> 0 \<le> bat_timed b ! i))"
proof -
  let ?n = "nat (run_time sc)"
  let ?s0 = "\<lparr>kwh_current = residual sc - kt ! 0 * (hour_now sc - of_int (base_hour sc)),
              reserve_drain = reserve sc, bat_timed = [],
              kwh_min = residual sc - kt ! 0 * (hour_now sc - of_int (base_hour sc)),
              min_hour = base_hour sc\<rparr>"
  let ?P = "\<lambda>i st. length (bat_timed st) = i
      \<and> (\<forall>v\<in>set (bat_timed st). v \<le> capacity sc)
      \<and> (0 \<le> reserve sc \<and> 0 \<le> capacity sc \<longrightarrow>
           (\<forall>j<i. int j \<le> time_to_next sc \<longrightarrow> 0 \<le> bat_timed st ! j))"
  have g0: "py_get kt 0 = Inr (kt ! 0)" using assms(1) by (simp add: py_get_def)
  have sim: "baseline_sim sc kt = for_range (baseline_step sc kt) [0..<?n] ?s0"
    by (simp add: baseline_sim_def g0 Let_def)
  have "\<exists>b. for_range (baseline_step sc kt) [0..<?n] ?s0 = Inr b"
  proof (rule for_range_total)
    fix s i assume "i \<in> set [0..<?n]"
    then have "i < length kt" using assms(2) by simp
    then show "\<exists>s'. baseline_step sc kt s i = Inr s'" by (rule baseline_step_total)
  qed
  then obtain b where b: "for_range (baseline_step sc kt) [0..<?n] ?s0 = Inr b" by blast
  have "?P ?n b"
  proof (rule for_range_upt_inv [where P = ?P, OF b])
    show "?P 0 ?s0" by simp
  next
    fix i s s'
    assume i: "i < ?n" and p: "?P i s" and st: "baseline_step sc kt s i = Inr s'"
    from baseline_step_Inr [OF st] obtain cur where
      bt: "bat_timed s' = bat_timed s @ [cur]" and up: "cur \<le> capacity sc"
      and low: "0 \<le> reserve sc \<and> 0 \<le> capacity sc \<and> int i \<le> time_to_next sc \<longrightarrow> 0 \<le> cur"
      by blast
    show "?P (Suc i) s'"
      using p up low by (auto simp: bt nth_append less_Suc_eq)
  qed
  with sim b show ?thesis by auto
qed

lemma charged_sim_bounds:
  assumes "kt \<noteq> []" and "nat (run_time sc) \<le> length kt"
  shows "\<exists>c. charged_sim sc kt st1 = Inr c
      \<and> length (bat_timed c) = nat (run_time sc)
      \<and> (\<forall>v\<in>set (bat_timed c). v \<le> capacity sc)
      \<and> (0 \<le> reserve sc \<and> 0 \<le> capacity sc \<longrightarrow> (\<forall>v\<in>set (bat_timed c). 0 \<le> v))"
proof -
  let ?n = "nat (run_time sc)"
  let ?s0 = "st1\<lparr>kwh_current := residual sc - kt ! 0 * (hour_now sc - of_int (base_hour sc)),
                 reserve_drain := reserve sc, bat_timed := []\<rparr>"
  let ?P = "\<lambda>i st. length (bat_timed st) = i
      \<and> (\<forall>v\<in>set (bat_timed st). v \<le> capacity sc)
      \<and> (0 \<le> reserve sc \<and> 0 \<le> capacity sc \<longrightarrow> (\<forall>v\<in>set (bat_timed st). 0 \<le> v))"
  have g0: "py_get kt 0 = Inr (kt ! 0)" using assms(1) by (simp add: py_get_def)
  have sim: "charged_sim sc kt st1 = for_range (charged_step sc kt) [0..<?n] ?s0"
    by (simp add: charged_sim_def g0)
  have "\<exists>c. for_range (charged_step sc kt) [0..<?n] ?s0 = Inr c"
  proof (rule for_range_total)
    fix s i assume "i \<in> set [0..<?n]"
    then have "i < length kt" using assms(2) by simp
    then show "\<exists>s'. charged_step sc kt s i = Inr s'" by (rule charged_step_total)
  qed
  then obtain c where c: "for_range (charged_step sc kt) [0..<?n] ?s0 = Inr c" by blast
  have "?P ?n c"
  proof (rule for_range_upt_inv [where P = ?P, OF c])
    show "?P 0 ?s0" by simp
  next
    fix i s s'
    assume i: "i < ?n" and p: "?P i s" and st: "charged_step sc kt s i = Inr s'"
    from charged_step_Inr [OF st] obtain cur where
      bt: "bat_timed s' = bat_timed s @ [cur]" and up: "cur \<le> capacity sc"
      and low: "0 \<le> reserve sc \<and> 0 \<le> capacity sc \<longrightarrow> 0 \<le> cur"
      by blast
    have l: "length (bat_timed s') = Suc i" using p by (simp add: bt)
    have u: "\<forall>v\<in>set (bat_timed s'). v \<le> capacity sc" using p up by (simp add: bt)
    have z: "0 \<le> reserve sc \<and> 0 \<le> capacity sc \<longrightarrow> (\<forall>v\<in>set (bat_timed s'). 0 \<le> v)"
    proof (intro impI ballI)
      fix v
      assume a: "0 \<le> reserve sc \<and> 0 \<le> capacity sc" and "v \<in> set (bat_timed s')"
      then have "v \<in> set (bat_timed s) \<or> v = cur" by (simp add: bt disj_commute)
      moreover have "\<forall>w\<in>set (bat_timed s). 0 \<le> w" using p a by blast
      moreover have "0 \<le> cur" using low a by blast
      ultimately show "0 \<le> v" by blast
    qed
    from l u z show "?P (Suc i) s'" by (intro conjI)
  qed
  then show ?thesis unfolding sim using c by blast
qed

text \<open>
  C1, as written: every value appended to \<^verbatim>\<open>bat_timed\<close> lies in \<open>[0, capacity]\<close>. The
  first pass holds the residual at the reserve only up to the hour of the next charge
  and has no floor after it, so that the lowest residual measures the energy that is
  missing: a battery of 10 kWh holding 2 kWh, with 3 kWh drawn per hour, is recorded at
  2 kWh and then at -1 kWh.
\<close>

theorem bat_timed_negative_counterexample:
  "baseline (example_scenario\<lparr>residual := 2\<rparr>)
     = Inr \<lparr>kwh_current = - 4, reserve_drain = 1, bat_timed = [2, - 1], kwh_min = - 1,
            min_hour = 13\<rparr>
   \<and> 0 \<le> residual (example_scenario\<lparr>residual := 2\<rparr>)
   \<and> residual (example_scenario\<lparr>residual := 2\<rparr>) \<le> capacity (example_scenario\<lparr>residual := 2\<rparr>)
   \<and> (- 1 :: real) < 0"
  by code_simp

text \<open>
  C1, amended: for every run that has a delta for each simulated hour (any deltas, any
  starting residual, reserve and capacity), both passes complete with \<^verbatim>\<open>run_time\<close>
  values in \<^verbatim>\<open>bat_timed\<close>, and every value is at most the capacity. When the reserve and
  the capacity are not negative, every value of the pass with the charge added lies in
  \<open>[0, capacity]\<close>, and so does every value of the first pass at an hour index up to
  \<^verbatim>\<open>time_to_next\<close>.
\<close>

theorem bat_timed_bounds:
  assumes "kt \<noteq> []" and "nat (run_time sc) \<le> length kt"
    and "kt' \<noteq> []" and "nat (run_time sc) \<le> length kt'"
  shows "\<exists>b c. baseline_sim sc kt = Inr b \<and> charged_sim sc kt' st1 = Inr c
      \<and> length (bat_timed b) = nat (run_time sc) \<and> length (bat_timed c) = nat (run_time sc)
      \<and> (\<forall>v\<in>set (bat_timed b). v \<le> capacity sc)
      \<and> (\<forall>v\<in>set (bat_timed c). v \<le> capacity sc)
      \<and> (0 \<le> reserve sc \<and> 0 \<le> capacity sc \<longrightarrow>
           (\<forall>v\<in>set (bat_timed c). 0 \<le> v)
           \<and> (\<forall>i<nat (run_time sc). int i \<le> time_to_next sc \<longrightarrow> 0 \<le> bat_timed b ! i))"
  using baseline_sim_bounds [OF assms(1,2)] charged_sim_bounds [OF assms(3,4), of st1]
  by blast

theorem bat_timed_bounds_witness:
  "[- 3, - 3 :: real] \<noteq> [] \<and> nat (run_time example_scenario) \<le> length [- 3, - 3 :: real]
   \<and> 0 \<le> reserve example_scenario \<and> 0 \<le> capacity example_scenario
   \<and> (\<exists>b c. baseline_sim example_scenario [- 3, - 3] = Inr b
          \<and> charged_sim example_scenario [- 3, - 3]
                \<lparr>kwh_current = 2, reserve_drain = 1, bat_timed = [8, 5], kwh_min = 5,
                 min_hour = 13\<rparr> = Inr c
          \<and> (\<forall>v\<in>set (bat_timed c). 0 \<le> v \<and> v \<le> capacity example_scenario))"
proof -
  have h1: "[- 3, - 3 :: real] \<noteq> []" by simp
  have h2: "nat (run_time example_scenario) \<le> length [- 3, - 3 :: real]"
    by (simp add: example_scenario_def)
  have h3: "0 \<le> reserve example_scenario \<and> 0 \<le> capacity example_scenario"
    by (simp add: example_scenario_def)
  from bat_timed_bounds [OF h1 h2 h1 h2,
      of "\<lparr>kwh_current = 2, reserve_drain = 1, bat_timed = [8, 5], kwh_min = 5, min_hour = 13\<rparr>"]
    h1 h2 h3
  show ?thesis by blast
qed

subsection \<open>The charge decision\<close>

text \<open>
  C3, as written: no charge is planned when \<^verbatim>\<open>kwh_needed\<close> is at or below
  \<^verbatim>\<open>min_kwh\<close> and no full charge is configured. The code tests
  \<^verbatim>\<open>kwh_needed < min_kwh\<close>: with 0.5 kWh needed and a minimum of 0.5 kWh a charge is
  planned, for the minimum charge time of a quarter of an hour.
\<close>

theorem charge_at_min_kwh_counterexample:
  "baseline (example_scenario\<lparr>consumption := 22.5\<rparr>)
     = Inr \<lparr>kwh_current = 2, reserve_drain = 1, bat_timed = [8, 5], kwh_min = 5, min_hour = 13\<rparr>
   \<and> kwh_needed_calc (example_scenario\<lparr>consumption := 22.5\<rparr>)
        \<lparr>kwh_current = 2, reserve_drain = 1, bat_timed = [8, 5], kwh_min = 5, min_hour = 13\<rparr> = 0.5
   \<and> min_kwh (example_scenario\<lparr>consumption := 22.5\<rparr>) = 0.5
   \<and> \<not> full_charge (example_scenario\<lparr>consumption := 22.5\<rparr>)
   \<and> charge_plan (example_scenario\<lparr>consumption := 22.5\<rparr>)
       = Inr \<lparr>charge_message = ''with charge added'', kwh_needed = 0.5, hours = 0.25,
              end1 = 12.25\<rparr>"
  by code_simp

text \<open>
  C3, amended: if the first pass completes with its lowest residual above the reserve,
  \<^verbatim>\<open>kwh_needed\<close> is strictly below \<^verbatim>\<open>min_kwh\<close>, and neither a full charge nor a test
  charge is requested, the plan is "no charge needed" with a charge time of zero (and
  zero energy, ending at the start of the charge period); so 0.2 kWh needed with a
  minimum of 0.5 kWh gives a charge time of zero.
\<close>

theorem no_charge_below_min_kwh:
  assumes "baseline sc = Inr st" and "reserve sc < kwh_min st"
    and "kwh_needed_calc sc st < min_kwh sc" and "\<not> full_charge sc" and "test_charge sc = None"
  shows "charge_plan sc = Inr \<lparr>charge_message = ''no charge needed'', kwh_needed = 0,
                               hours = 0, end1 = start_at sc\<rparr>"
  using assms by (simp add: charge_plan_def Let_def)

theorem no_charge_below_min_kwh_witness:
  "baseline (example_scenario\<lparr>consumption := 21\<rparr>)
     = Inr \<lparr>kwh_current = 2, reserve_drain = 1, bat_timed = [8, 5], kwh_min = 5, min_hour = 13\<rparr>
   \<and> kwh_needed_calc (example_scenario\<lparr>consumption := 21\<rparr>)
        \<lparr>kwh_current = 2, reserve_drain = 1, bat_timed = [8, 5], kwh_min = 5, min_hour = 13\<rparr> = 0.2
   \<and> min_kwh (example_scenario\<lparr>consumption := 21\<rparr>) = 0.5
   \<and> hours (projr (charge_plan (example_scenario\<lparr>consumption := 21\<rparr>))) = 0
   \<and> charge_plan (example_scenario\<lparr>consumption := 21\<rparr>)
       = Inr \<lparr>charge_message = ''no charge needed'', kwh_needed = 0, hours = 0, end1 = 12\<rparr>"
proof -
  let ?sc = "example_scenario\<lparr>consumption := 21\<rparr>"
  let ?st = "\<lparr>kwh_current = 2, reserve_drain = 1, bat_timed = [8, 5], kwh_min = 5, min_hour = 13\<rparr>"
  have b: "baseline ?sc = Inr ?st" by code_simp
  have k: "kwh_needed_calc ?sc ?st = 0.2" by code_simp
  have m: "min_kwh ?sc = 0.5" by code_simp
  have r: "reserve ?sc < kwh_min ?st" by code_simp
  have lt: "kwh_needed_calc ?sc ?st < min_kwh ?sc" by code_simp
  have f: "\<not> full_charge ?sc" by code_simp
  have t: "test_charge ?sc = None" by code_simp
  have s: "start_at ?sc = 12" by code_simp
  from no_charge_below_min_kwh [OF b r lt f t]
  have p: "charge_plan ?sc = Inr \<lparr>charge_message = ''no charge needed'', kwh_needed = 0,
                               hours = 0, end1 = 12\<rparr>" by (simp only: s)
  then have "hours (projr (charge_plan ?sc)) = 0" by simp
  with b k m p show ?thesis by blast
qed

subsection \<open>Contingency\<close>







section \<open>Properties of the text conversions\<close>

subsection \<open>Exact arithmetic\<close>

text \<open>
  In exact arithmetic the text \<^verbatim>\<open>HH:MM\<close> of every hour below 24 and minute below 60 is
  converted to \<open>HH + MM / 60\<close> and back to the same text.
\<close>

lemma of_char_digit: "k < 10 \<Longrightarrow> (of_char (digit_char k) :: nat) = 48 + k"
  by (simp add: digit_char_def)

lemma colon_code: "(of_char CHR '':'' :: nat) = 58"
  by simp

lemma zero_char: "digit_char 0 = CHR ''0''"
  by code_simp

lemma digit_not_colon: "k < 10 \<Longrightarrow> digit_char k \<noteq> CHR '':''"
proof
  assume k: "k < 10" and e: "digit_char k = CHR '':''"
  from e have "(of_char (digit_char k) :: nat) = of_char CHR '':''" by simp
  with k show False by (simp add: of_char_digit)
qed

lemma digit_is_digit: "k < 10 \<Longrightarrow> is_digit (digit_char k)"
  by (simp add: is_digit_def of_char_digit)

lemma digit_val_char: "k < 10 \<Longrightarrow> digit_val (digit_char k) = k"
  by (simp add: digit_val_def of_char_digit)

lemma fmt02_two: "n < 100 \<Longrightarrow> fmt02 (int n) = [digit_char (n div 10), digit_char (n mod 10)]"
proof (cases "n < 10")
  case True
  then show ?thesis by (simp add: fmt02_def str_int_def dec.simps zero_char)
next
  case False
  assume "n < 100"
  with False have d: "n div 10 < 10" by simp
  from False have "dec n = dec (n div 10) @ [digit_char (n mod 10)]" by (subst dec.simps) simp
  also have "dec (n div 10) = [digit_char (n div 10)]" using d by (subst dec.simps) simp
  finally show ?thesis using False by (simp add: fmt02_def str_int_def)
qed


lemma two_digits_value:
  "n < 100 \<Longrightarrow> digits_value [digit_char (n div 10), digit_char (n mod 10)] = n"
  by (simp add: digits_value_def digit_val_char)

lemma py_float_exact_two:
  "n < 100 \<Longrightarrow> py_float exact [digit_char (n div 10), digit_char (n mod 10)] = Inr (of_nat n)"
  by (simp add: py_float_def isnumeric_def digit_is_digit two_digits_value exact_def)

lemma py_float_exact_00: "py_float exact ''00'' = Inr 0"
  by (simp add: py_float_def isnumeric_def is_digit_def digits_value_def digit_val_def exact_def)

lemma time_hours_exact:
  assumes "hh < 100" and "mm < 100"
  shows "time_hours exact (PStr (hhmm hh mm)) PNone = Inr (Some (of_nat hh + of_nat mm / 60))"
proof -
  define a where "a = digit_char (hh div 10)"
  define b where "b = digit_char (hh mod 10)"
  define c where "c = digit_char (mm div 10)"
  define d where "d = digit_char (mm mod 10)"
  have lt: "hh div 10 < 10" "hh mod 10 < 10" "mm div 10 < 10" "mm mod 10 < 10"
    using assms by simp_all
  have nc: "a \<noteq> CHR '':''" "b \<noteq> CHR '':''" "c \<noteq> CHR '':''" "d \<noteq> CHR '':''"
    unfolding a_def b_def c_def d_def using lt by (simp_all add: digit_not_colon)
  have dg: "is_digit a" "is_digit b" "is_digit c" "is_digit d"
    unfolding a_def b_def c_def d_def using lt by (simp_all add: digit_is_digit)
  have t: "hhmm hh mm = [a, b, CHR '':'', c, d]"
    using assms by (simp add: hhmm_def fmt02_two a_def b_def c_def d_def)
  have num: "isnumeric (remove_char CHR '':'' [a, b, CHR '':'', c, d])"
    using nc dg by (simp add: remove_char_def isnumeric_def)
  have cnt: "count_char CHR '':'' [a, b, CHR '':'', c, d] = 1"
    using nc by (simp add: count_char_def)
  have sp: "split_on CHR '':'' ([a, b, CHR '':'', c, d] @ '':00'') = [[a, b], [c, d], ''00'']"
    using nc by simp
  have str: "(if count_char CHR '':'' [a, b, CHR '':'', c, d] = 1
              then [a, b, CHR '':'', c, d] @ '':00'' else [a, b, CHR '':'', c, d])
             = [a, b, CHR '':'', c, d] @ '':00''"
    by (simp only: cnt refl if_True)
  have cond: "isnumeric (remove_char CHR '':'' [a, b, CHR '':'', c, d])
              \<and> count_char CHR '':'' [a, b, CHR '':'', c, d] \<le> 2"
    using num cnt by simp
  have f1: "py_float exact [a, b] = Inr (of_nat hh)"
    unfolding a_def b_def using assms(1) by (rule py_float_exact_two)
  have f2: "py_float exact [c, d] = Inr (of_nat mm)"
    unfolding c_def d_def using assms(2) by (rule py_float_exact_two)
  have sm: "sum_parts exact 0 (zip [1, 60, 3600] [[a, b], [c, d], ''00''])
              = Inr (of_nat hh + of_nat mm / 60)"
    by (simp add: f1 f2 py_float_exact_00 exact_def)
  show ?thesis
    unfolding t time_hours_def
    by (simp only: pyval.simps if_False if_True pyval.case cond str sp sm sum.case simp_thms)
qed

lemma hours_time_exact:
  assumes "hh < 24" and "mm < 60"
  shows "hours_time exact (Some (of_nat hh + of_nat mm / 60)) False False True = Some (hhmm hh mm)"
proof -
  let ?h = "of_nat hh + of_nat mm / 60 :: real"
  have m1: "(of_nat mm :: real) / 60 < 1" "0 \<le> (of_nat mm :: real) / 60" using assms(2) by simp_all
  have h0: "0 \<le> ?h" by simp
  have "(of_nat hh :: real) \<le> 23" using assms(1) by simp
  with m1 have h24: "?h < 24" by linarith
  have up: "days_up exact ?h 0 = Some (?h, 0)" using h0 by (subst days_up.simps) simp
  have dn: "days_down exact ?h 0 = Some (?h, 0)" using h24 by (subst days_down.simps) simp
  have fl: "\<lfloor>?h\<rfloor> = int hh" by (rule floor_unique) (use m1 in simp_all)
  have ph: "py_int ?h = int hh" using h0 fl by (simp add: py_int_def)
  have e60: "exact (?h * 60) = of_nat (60 * hh + mm)" by (simp add: exact_def field_simps)
  have "\<lfloor>(of_nat (60 * hh + mm) :: real) / 60\<rfloor> = int hh"
    by (rule floor_unique) (use assms(2) in \<open>simp_all add: field_simps\<close>)
  then have fm: "fmod60 (of_nat (60 * hh + mm)) = of_nat mm" by (simp add: fmod60_def)
  have pm: "py_int (fmod60 (exact (?h * 60))) = int mm"
    unfolding e60 fm by (simp add: py_int_def)
  have l1: "fmt02 (int hh) = [digit_char (hh div 10), digit_char (hh mod 10)]"
    using assms(1) by (simp add: fmt02_two)
  have l2: "fmt02 (int mm) = [digit_char (mm div 10), digit_char (mm mod 10)]"
    using assms(2) by (simp add: fmt02_two)
  have "hours_time exact (Some ?h) False False True
          = Some (take 5 (fmt02 (int hh) @ '':'' @ fmt02 (int mm) @ '':''
                    @ fmt02 (py_int (fmod60 (exact (?h * 3600))))) @ [])"
    unfolding hours_time_def
    by (simp only: option.case up dn prod.case if_False if_True ph pm)
  also have "\<dots> = Some (hhmm hh mm)" by (simp add: l1 l2 hhmm_def)
  finally show ?thesis .
qed

lemma roundtrip_exact:
  assumes "hh < 24" and "mm < 60"
  shows "\<exists>h. time_hours exact (PStr (hhmm hh mm)) PNone = Inr (Some h)
           \<and> hours_time exact (Some h) False False True = Some (hhmm hh mm)"
  using time_hours_exact [of hh mm] hours_time_exact [OF assms] assms by auto

subsection \<open>Python's floats\<close>

text \<open>
  The binade that \<open>binary64\<close> rounds in is the one that holds the number.
\<close>

lemma bin_up_bounds:
  "1 \<le> x \<Longrightarrow> \<exists>k. bin_up x e = e + int k \<and> 2 ^ k \<le> x \<and> x < 2 ^ Suc k"
proof (induction x e rule: bin_up.induct)
  case (1 x e)
  show ?case
  proof (cases "2 \<le> x")
    case False
    then have "bin_up x e = e" by (subst bin_up.simps) simp
    with False 1(2) show ?thesis by (intro exI [of _ 0]) simp
  next
    case True
    then have s: "bin_up x e = bin_up (x / 2) (e + 1)" by (subst bin_up.simps) simp
    from True have "1 \<le> x / 2" by simp
    from 1(1) [OF True this] obtain k where
      k: "bin_up (x / 2) (e + 1) = e + 1 + int k" "2 ^ k \<le> x / 2" "x / 2 < 2 ^ Suc k"
      by blast
    show ?thesis using k s by (intro exI [of _ "Suc k"]) simp
  qed
qed

lemma bin_down_bounds:
  "0 < x \<Longrightarrow> x < 1 \<Longrightarrow> \<exists>k. bin_down x e = e - int (Suc k) \<and> 1 / 2 ^ Suc k \<le> x \<and> x < 1 / 2 ^ k"
proof (induction x e rule: bin_down.induct)
  case (1 x e)
  from 1(2,3) have s: "bin_down x e = bin_down (x * 2) (e - 1)" by (subst bin_down.simps) simp
  show ?case
  proof (cases "x * 2 < 1")
    case False
    then have "bin_down (x * 2) (e - 1) = e - 1" by (subst bin_down.simps) simp
    with s False 1(3) show ?thesis by (intro exI [of _ 0]) simp
  next
    case True
    have "0 < x \<and> x < 1" using 1(2,3) by simp
    moreover have "0 < x * 2" using 1(2) by simp
    ultimately obtain k where
      k: "bin_down (x * 2) (e - 1) = e - 1 - int (Suc k)" "1 / 2 ^ Suc k \<le> x * 2"
         "x * 2 < 1 / 2 ^ k"
      using 1(1) True by blast
    show ?thesis using k s by (intro exI [of _ "Suc k"]) (simp add: field_simps)
  qed
qed

lemma binade_bounds:
  assumes "0 < x"
  shows "pow2 (binade x) \<le> x \<and> x < pow2 (binade x + 1)"
proof (cases "1 \<le> x")
  case True
  from bin_up_bounds [OF True, of 0] obtain k where
    k: "bin_up x 0 = int k" "2 ^ k \<le> x" "x < 2 ^ Suc k" by auto
  have "nat (int k + 1) = Suc k" by simp
  then show ?thesis using True k by (simp add: binade_def pow2_def)
next
  case False
  then have "x < 1" by simp
  from bin_down_bounds [OF assms this, of 0] obtain k where
    k: "bin_down x 0 = - int (Suc k)" "1 / 2 ^ Suc k \<le> x" "x < 1 / 2 ^ k" by auto
  have b: "binade x = - int (Suc k)" using False k(1) by (simp add: binade_def)
  have p1: "pow2 (- int (Suc k)) = 1 / 2 ^ Suc k" by (simp add: pow2_def del: of_nat_Suc)
  have "pow2 (- int k) = 1 / 2 ^ k" by (simp add: pow2_def)
  moreover have "- int (Suc k) + 1 = - int k" by simp
  ultimately have p2: "pow2 (- int (Suc k) + 1) = 1 / 2 ^ k" by (simp only:)
  show ?thesis unfolding b p1 p2 using k by simp
qed

text \<open>
  C8: converting a valid \<^verbatim>\<open>HH:MM\<close> text to decimal hours and back is to reproduce the
  text. \<^verbatim>\<open>hours_time\<close> cuts the minutes off with \<^verbatim>\<open>int(h * 60 % 60)\<close> and does not round
  them, and the decimal hours of most minutes are not binary64 numbers: \<^verbatim>\<open>02:03\<close> becomes
  the float below 2.05, its 60-fold is rounded to a float below 123, and the text that
  comes back is \<^verbatim>\<open>02:02\<close>.
\<close>

theorem hours_time_loses_a_minute:
  "time_hours binary64 (PStr ''02:03'') PNone
     = Inr (Some (2308094809027379 / 1125899906842624))
   \<and> hours_time binary64 (Some (2308094809027379 / 1125899906842624)) False False True
     = Some ''02:02''"
  by code_simp

end
